theory Spec2Isabelle
  imports Complex_Main "HOL-Library.AList" "HOL-Library.Sublist"
begin

section \<open>Python values\<close>

text \<open>
  Python's unbounded integers are \<^typ>\<open>int\<close>. The two auto-sizing heuristics compute with
  Python floats; they are modelled by exact real arithmetic (\<^typ>\<open>real\<close>), that is,
  without the rounding of IEEE doubles. \<open>int(x)\<close> on a float truncates toward zero.
\<close>

definition py_int :: "real \<Rightarrow> int" where
  "py_int x = (if 0 \<le> x then \<lfloor>x\<rfloor> else \<lceil>x\<rceil>)"

text \<open>
  The exceptions the modelled code can meet. Every error of a file-system call is an
  \<open>OSError\<close> (\<open>PermissionError\<close>, \<open>FileNotFoundError\<close>, ... are its subclasses).
\<close>

datatype oserror =
  PermissionError | FileNotFoundError | FileExistsError
  | IsADirectoryError | NotADirectoryError | OtherOSError

datatype exn = OSError oserror | ValueError | ZeroDivisionError

section \<open>The capacity heuristics of the two floods\<close>

text \<open>
  \<open>flood_journal\<close>, lines 639--663. The inputs from outside the function are: the caller's
  \<open>num_files\<close> (\<open>None\<close> when not given), whether \<open>sys.platform == 'win32'\<close>, the result of
  \<open>Path(path).resolve().drive\<close> (which may raise) and the collaborator
  \<open>get_journal_size\<close>, which returns \<open>(max_size, allocation_delta)\<close>, each possibly
  \<open>None\<close>. \<open>if max_size:\<close> is false for \<open>None\<close> and for \<open>0\<close>.
\<close>

definition flood_journal_num_files ::
  "int option \<Rightarrow> bool \<Rightarrow> exn + string \<Rightarrow> (string \<Rightarrow> int option \<times> int option) \<Rightarrow> int" where
  "flood_journal_num_files num_files win drive get_journal_size =
     (case num_files of
        Some n \<Rightarrow> n
      | None \<Rightarrow>
          if win then
            (case drive of
               Inl e \<Rightarrow> 100000
             | Inr drive_letter \<Rightarrow>
                 if drive_letter \<noteq> [] then
                   (case fst (get_journal_size drive_letter) of
                      None \<Rightarrow> 100000
                    | Some max_size \<Rightarrow>
                        if max_size \<noteq> 0 then
                          (let bytes_per_file = 400 * 5;
                               n = py_int ((of_int max_size * (3 / 2)) / of_int bytes_per_file)
                           in max 50000 (min n 500000))
                        else 100000)
                 else 100000)
          else 100000)"





definition journal_query_64MiB :: "string \<Rightarrow> int option \<times> int option" where
  "journal_query_64MiB drive_letter = (Some (64 * 1024 * 1024), None)"



section \<open>The file system and the environment\<close>

text \<open>
  A path is the list of its components below the root of the file system, so
  \<open>Path.parent\<close> is \<^const>\<open>butlast\<close> and \<open>parent / name\<close> appends a component. The file
  system is a tree: a regular file with its length in bytes, or a directory with its
  entries in the order \<open>os.scandir\<close> lists them. Only the length of a file is kept: no
  claim is about the bytes themselves.
\<close>

type_synonym path = "string list"

datatype node = File nat | Dir "(string \<times> node) list"

fun lookup :: "node \<Rightarrow> path \<Rightarrow> node option" where
  "lookup t [] = Some t"
| "lookup (File s) (x # xs) = None"
| "lookup (Dir es) (x # xs) = (case map_of es x of None \<Rightarrow> None | Some c \<Rightarrow> lookup c xs)"

definition set_entry :: "string \<Rightarrow> node option \<Rightarrow> (string \<times> node) list \<Rightarrow> (string \<times> node) list" where
  "set_entry x v es = (case v of None \<Rightarrow> AList.delete x es | Some n \<Rightarrow> AList.update x n es)"

text \<open>\<open>alter p v t\<close> removes (\<open>v = None\<close>) or stores the entry at path \<open>p\<close>, when the parent
  of \<open>p\<close> is a directory of \<open>t\<close>; otherwise the tree is unchanged.\<close>

fun alter :: "path \<Rightarrow> node option \<Rightarrow> node \<Rightarrow> node" where
  "alter [] v t = t"
| "alter (x # xs) v (File s) = File s"
| "alter [x] v (Dir es) = Dir (set_entry x v es)"
| "alter (x # y # ys) v (Dir es) =
     (case map_of es x of
        None \<Rightarrow> Dir es
      | Some c \<Rightarrow> Dir (AList.update x (alter (y # ys) v c) es))"

text \<open>
  The calls the program makes on paths and on the file it has open. \<open>Seek p off\<close>,
  \<open>Write p off n\<close> (\<open>n\<close> bytes written at offset \<open>off\<close>), \<open>Flush\<close>, \<open>Fsync\<close> and \<open>Close\<close> act
  on the file object opened on \<open>p\<close>; \<open>WriteBytes p n\<close> is \<open>Path.write_bytes\<close> with \<open>n\<close> bytes.
\<close>

datatype call =
  Exists path | IsFile path | IsDir path | GetSize path
  | Rename path path | Remove path | Rmdir path | Rmtree path
  | Mkdir path | WriteBytes path nat
  | Open path | Seek path nat | Write path nat nat | Flush path | Fsync path | Close path

text \<open>
  \<open>os.rename\<close>. On Windows an existing destination is an error; elsewhere a file replaces
  a file and a directory replaces an empty directory. Renaming a path to itself succeeds
  and changes nothing.
\<close>

definition fs_rename :: "bool \<Rightarrow> path \<Rightarrow> path \<Rightarrow> node \<Rightarrow> oserror + node" where
  "fs_rename win src dst t =
     (case lookup t src of
        None \<Rightarrow> Inl FileNotFoundError
      | Some n \<Rightarrow>
          if src = [] \<or> dst = [] \<or> strict_prefix src dst then Inl OtherOSError
          else if src = dst then Inr t
          else
            (case lookup t (butlast dst) of
               None \<Rightarrow> Inl FileNotFoundError
             | Some (File s) \<Rightarrow> Inl NotADirectoryError
             | Some (Dir es) \<Rightarrow>
                 (case lookup t dst of
                    None \<Rightarrow> Inr (alter dst (Some n) (alter src None t))
                  | Some m \<Rightarrow>
                      if win then Inl FileExistsError
                      else
                        (case (n, m) of
                           (File a, File b) \<Rightarrow> Inr (alter dst (Some n) (alter src None t))
                         | (File a, Dir ds) \<Rightarrow> Inl IsADirectoryError
                         | (Dir ss, File b) \<Rightarrow> Inl NotADirectoryError
                         | (Dir ss, Dir ds) \<Rightarrow>
                             if ds = [] then Inr (alter dst (Some n) (alter src None t))
                             else Inl OtherOSError))))"

text \<open>
  What a call does to the tree when the environment lets it through. \<open>shutil.rmtree\<close> is
  taken as one step. The root of the file system itself is never removed. The queries
  (\<open>Exists\<close>, \<open>IsFile\<close>, \<open>IsDir\<close>, \<open>GetSize\<close>) and the calls on an open file other than
  \<open>Write\<close> leave the tree as it is.
\<close>

fun effect :: "bool \<Rightarrow> call \<Rightarrow> node \<Rightarrow> oserror + node" where
  "effect win (Rename src dst) t = fs_rename win src dst t"
| "effect win (Remove p) t =
     (case lookup t p of
        None \<Rightarrow> Inl FileNotFoundError
      | Some (Dir es) \<Rightarrow> Inl (if win then PermissionError else IsADirectoryError)
      | Some (File s) \<Rightarrow> if p = [] then Inl OtherOSError else Inr (alter p None t))"
| "effect win (Rmdir p) t =
     (case lookup t p of
        None \<Rightarrow> Inl FileNotFoundError
      | Some (File s) \<Rightarrow> Inl NotADirectoryError
      | Some (Dir es) \<Rightarrow>
          if es \<noteq> [] \<or> p = [] then Inl OtherOSError else Inr (alter p None t))"
| "effect win (Rmtree p) t =
     (case lookup t p of
        None \<Rightarrow> Inl FileNotFoundError
      | Some (File s) \<Rightarrow> Inl NotADirectoryError
      | Some (Dir es) \<Rightarrow> if p = [] then Inl OtherOSError else Inr (alter p None t))"
| "effect win (Mkdir p) t =
     (case lookup t p of
        Some (Dir es) \<Rightarrow> Inr t
      | Some (File s) \<Rightarrow> Inl FileExistsError
      | None \<Rightarrow>
          (case lookup t (butlast p) of
             None \<Rightarrow> Inl FileNotFoundError
           | Some (File s) \<Rightarrow> Inl NotADirectoryError
           | Some (Dir es) \<Rightarrow> Inr (alter p (Some (Dir [])) t)))"
| "effect win (WriteBytes p n) t =
     (case lookup t p of
        Some (Dir es) \<Rightarrow> Inl (if win then PermissionError else IsADirectoryError)
      | Some (File s) \<Rightarrow> if p = [] then Inl OtherOSError else Inr (alter p (Some (File n)) t)
      | None \<Rightarrow>
          (case lookup t (butlast p) of
             None \<Rightarrow> Inl FileNotFoundError
           | Some (File s) \<Rightarrow> Inl NotADirectoryError
           | Some (Dir es) \<Rightarrow> Inr (alter p (Some (File n)) t)))"
| "effect win (Open p) t =
     (case lookup t p of
        None \<Rightarrow> Inl FileNotFoundError
      | Some (Dir es) \<Rightarrow> Inl (if win then PermissionError else IsADirectoryError)
      | Some (File s) \<Rightarrow> Inr t)"
| "effect win (Write p off n) t =
     (case lookup t p of
        Some (File s) \<Rightarrow> Inr (alter p (Some (File (max s (off + n)))) t)
      | _ \<Rightarrow> Inr t)"
| "effect win c t = Inr t"

text \<open>
  The state of a run: the tree, the platform, the operating system's source of random
  bytes (byte \<open>i\<close> of it is \<open>entropy i mod 256\<close>; \<open>drawn\<close> counts the bytes consumed), what
  the environment will refuse, and the log of the calls made so far with their outcome
  (for a query, its answer).

  The environment (a lock held by another process, a permission, a transient I/O error)
  can refuse any call that opens, writes, syncs, renames, creates or removes: \<open>faults\<close>
  holds one entry for each such call to come, \<open>Some e\<close> to make it raise \<open>e\<close> and \<open>None\<close>
  to let it through; past the end of the list every call is let through. The queries
  \<open>os.path.exists\<close>, \<open>isfile\<close>, \<open>is_dir\<close> and \<open>getsize\<close> are answered from the tree.
\<close>

record world =
  fs :: node
  win32 :: bool
  entropy :: "nat \<Rightarrow> nat"
  drawn :: nat
  faults :: "oserror option list"
  trace :: "(call \<times> bool) list"

definition log :: "call \<Rightarrow> bool \<Rightarrow> world \<Rightarrow> world" where
  "log c ok w = w\<lparr>trace := trace w @ [(c, ok)]\<rparr>"

definition path_exists :: "path \<Rightarrow> world \<Rightarrow> bool \<times> world" where
  "path_exists p w = (let b = (lookup (fs w) p \<noteq> None) in (b, log (Exists p) b w))"

definition is_file :: "path \<Rightarrow> world \<Rightarrow> bool \<times> world" where
  "is_file p w =
     (let b = (case lookup (fs w) p of Some (File s) \<Rightarrow> True | _ \<Rightarrow> False)
      in (b, log (IsFile p) b w))"

definition is_dir :: "path \<Rightarrow> world \<Rightarrow> bool \<times> world" where
  "is_dir p w =
     (let b = (case lookup (fs w) p of Some (Dir es) \<Rightarrow> True | _ \<Rightarrow> False)
      in (b, log (IsDir p) b w))"

text \<open>\<open>os.path.getsize\<close> raises for a missing path. The size reported for a directory
  depends on the platform; the code never asks for it, and the model answers 0.\<close>

definition getsize :: "path \<Rightarrow> world \<Rightarrow> (oserror + nat) \<times> world" where
  "getsize p w =
     (case lookup (fs w) p of
        None \<Rightarrow> (Inl FileNotFoundError, log (GetSize p) False w)
      | Some (File s) \<Rightarrow> (Inr s, log (GetSize p) True w)
      | Some (Dir es) \<Rightarrow> (Inr 0, log (GetSize p) True w))"

definition next_fault :: "world \<Rightarrow> oserror option" where
  "next_fault w = (case faults w of [] \<Rightarrow> None | f # rest \<Rightarrow> f)"

definition syscall :: "call \<Rightarrow> world \<Rightarrow> (oserror + unit) \<times> world" where
  "syscall c w =
     (case next_fault w of
        Some e \<Rightarrow> (Inl e, log c False (w\<lparr>faults := tl (faults w)\<rparr>))
      | None \<Rightarrow>
          (case effect (win32 w) c (fs w) of
             Inl e \<Rightarrow> (Inl e, log c False (w\<lparr>faults := tl (faults w)\<rparr>))
           | Inr t \<Rightarrow> (Inr (), log c True (w\<lparr>fs := t, faults := tl (faults w)\<rparr>))))"

section \<open>Random names\<close>

definition hex_alphabet :: string where
  "hex_alphabet = ''0123456789abcdef''"

definition hex_digit :: "nat \<Rightarrow> char" where
  "hex_digit d = hex_alphabet ! d"

definition hex_byte :: "nat \<Rightarrow> string" where
  "hex_byte b = [hex_digit (b div 16), hex_digit (b mod 16)]"

definition hexlify :: "nat list \<Rightarrow> string" where
  "hexlify bs = concat (map hex_byte bs)"

definition random_bytes :: "nat \<Rightarrow> world \<Rightarrow> nat list" where
  "random_bytes n w = map (\<lambda>i. entropy w i mod 256) [drawn w ..< drawn w + n]"

definition consume_entropy :: "nat \<Rightarrow> world \<Rightarrow> world" where
  "consume_entropy n w = w\<lparr>drawn := drawn w + n\<rparr>"

text \<open>\<open>secrets.token_hex(nbytes)\<close> is the hex encoding of \<open>os.urandom(nbytes)\<close>, which raises
  \<open>ValueError\<close> for a negative argument.\<close>

definition token_hex :: "int \<Rightarrow> world \<Rightarrow> (exn + string) \<times> world" where
  "token_hex nbytes w =
     (if nbytes < 0 then (Inl ValueError, w)
      else (Inr (hexlify (random_bytes (nat nbytes) w)), consume_entropy (nat nbytes) w))"

text \<open>\<open>generate_random_name(length=48)\<close>, lines 18--27; \<open>//\<close> is floor division.\<close>

definition generate_random_name :: "int \<Rightarrow> world \<Rightarrow> (exn + string) \<times> world" where
  "generate_random_name len w = token_hex (len div 2) w"

section \<open>Rename obfuscation\<close>

text \<open>
  \<open>secure_rename(path, passes=3)\<close>, lines 30--66. The loop renames the current path to
  \<open>parent / random_name\<close>, \<open>passes\<close> times; any exception ends it and the function returns
  \<open>None\<close>. Printing (\<open>verbose\<close>) is not modelled, here and below.
\<close>

fun secure_rename_passes :: "nat \<Rightarrow> path \<Rightarrow> path \<Rightarrow> world \<Rightarrow> (exn + path) \<times> world" where
  "secure_rename_passes 0 parent current_path w = (Inr current_path, w)"
| "secure_rename_passes (Suc i) parent current_path w =
     (let (isf, w1) = is_file current_path w in
      case generate_random_name 48 w1 of
        (Inl e, w2) \<Rightarrow> (Inl e, w2)
      | (Inr name, w2) \<Rightarrow>
          (let random_name = (if isf then name @ ''.tmp'' else name);
               new_path = parent @ [random_name]
           in case syscall (Rename current_path new_path) w2 of
                (Inl e, w3) \<Rightarrow> (Inl (OSError e), w3)
              | (Inr u, w3) \<Rightarrow> secure_rename_passes i parent new_path w3))"

definition secure_rename :: "path \<Rightarrow> nat \<Rightarrow> world \<Rightarrow> path option \<times> world" where
  "secure_rename path passes w =
     (case secure_rename_passes passes (butlast path) path w of
        (Inl e, w') \<Rightarrow> (None, w')
      | (Inr final, w') \<Rightarrow> (Some final, w'))"

section \<open>Sanitizing one file\<close>

text \<open>
  \<open>secure_delete_file(filepath, passes)\<close>, lines 347--420. The body of the \<open>try\<close> is
  modelled with its exceptions as values; the two \<open>except\<close> clauses turn every one of them
  into the result \<open>False\<close>. When the path is not a regular file the function falls off its
  end and returns \<open>None\<close>. \<open>os.urandom(chunk)\<close> consumes \<open>chunk\<close> random bytes. Leaving the
  \<open>with\<close> block closes the file, also when the block raised.
\<close>

definition chunk_size :: nat where
  "chunk_size = 1024 * 1024"

function write_chunks :: "path \<Rightarrow> nat \<Rightarrow> nat \<Rightarrow> world \<Rightarrow> (oserror + unit) \<times> world" where
  "write_chunks p off remaining w =
     (if remaining > 0 then
        (let chunk = min chunk_size remaining in
         case syscall (Write p off chunk) (consume_entropy chunk w) of
           (Inl e, w') \<Rightarrow> (Inl e, w')
         | (Inr u, w') \<Rightarrow> write_chunks p (off + chunk) (remaining - chunk) w')
      else (Inr (), w))"
  by pat_completeness auto
termination
  by (relation "measure (\<lambda>(p, off, remaining, w). remaining)") (auto simp: chunk_size_def)

fun overwrite_passes :: "nat \<Rightarrow> path \<Rightarrow> nat \<Rightarrow> world \<Rightarrow> (oserror + unit) \<times> world" where
  "overwrite_passes 0 p file_size w = (Inr (), w)"
| "overwrite_passes (Suc i) p file_size w =
     (case syscall (Seek p 0) w of
        (Inl e, w1) \<Rightarrow> (Inl e, w1)
      | (Inr u, w1) \<Rightarrow>
          (case write_chunks p 0 file_size w1 of
             (Inl e, w2) \<Rightarrow> (Inl e, w2)
           | (Inr u, w2) \<Rightarrow> overwrite_passes i p file_size w2))"

definition overwrite_and_sync :: "path \<Rightarrow> nat \<Rightarrow> nat \<Rightarrow> world \<Rightarrow> (oserror + unit) \<times> world" where
  "overwrite_and_sync p passes file_size w =
     (case overwrite_passes passes p file_size w of
        (Inl e, w1) \<Rightarrow> (Inl e, w1)
      | (Inr u, w1) \<Rightarrow>
          (case syscall (Flush p) w1 of
             (Inl e, w2) \<Rightarrow> (Inl e, w2)
           | (Inr u, w2) \<Rightarrow> syscall (Fsync p) w2))"

definition secure_delete_file_body :: "path \<Rightarrow> nat \<Rightarrow> world \<Rightarrow> (oserror + bool option) \<times> world" where
  "secure_delete_file_body filepath passes w =
     (let (isf, w0) = is_file filepath w in
      if isf then
        (case getsize filepath w0 of
           (Inl e, w1) \<Rightarrow> (Inl e, w1)
         | (Inr file_size, w1) \<Rightarrow>
             if file_size = 0 then
               (case syscall (Remove filepath) w1 of
                  (Inl e, w2) \<Rightarrow> (Inl e, w2)
                | (Inr u, w2) \<Rightarrow> (Inr (Some True), w2))
             else
               (case syscall (Open filepath) w1 of
                  (Inl e, w2) \<Rightarrow> (Inl e, w2)
                | (Inr u, w2) \<Rightarrow>
                    (case overwrite_and_sync filepath passes file_size w2 of
                       (Inl e, w3) \<Rightarrow>
                         (case syscall (Close filepath) w3 of
                            (Inl e', w4) \<Rightarrow> (Inl e', w4)
                          | (Inr u, w4) \<Rightarrow> (Inl e, w4))
                     | (Inr u, w3) \<Rightarrow>
                         (case syscall (Close filepath) w3 of
                            (Inl e, w4) \<Rightarrow> (Inl e, w4)
                          | (Inr u, w4) \<Rightarrow>
                              (case syscall (Remove filepath) w4 of
                                 (Inl e, w5) \<Rightarrow> (Inl e, w5)
                               | (Inr u, w5) \<Rightarrow> (Inr (Some True), w5))))))
      else (Inr None, w0))"

definition secure_delete_file :: "path \<Rightarrow> nat \<Rightarrow> world \<Rightarrow> bool option \<times> world" where
  "secure_delete_file filepath passes w =
     (case secure_delete_file_body filepath passes w of
        (Inl e, w') \<Rightarrow> (Some False, w')
      | (Inr r, w') \<Rightarrow> (r, w'))"

section \<open>The inventory\<close>

text \<open>
  \<open>os.walk(folder, topdown=False)\<close> yields, for every directory below and including
  \<open>folder\<close>, the triple \<open>(root, dirs, files)\<close> of its path, the names of its subdirectories
  and the names of its other entries, after the triples of all its subdirectories. A top
  that is missing or not a directory yields nothing. The traversal only reads the tree and
  is not entered in the log.
\<close>

fun is_dir_node :: "node \<Rightarrow> bool" where
  "is_dir_node (Dir es) = True"
| "is_dir_node (File s) = False"

definition dirnames :: "(string \<times> node) list \<Rightarrow> string list" where
  "dirnames es = map fst (filter (\<lambda>e. is_dir_node (snd e)) es)"

definition filenames :: "(string \<times> node) list \<Rightarrow> string list" where
  "filenames es = map fst (filter (\<lambda>e. \<not> is_dir_node (snd e)) es)"

function walk_node :: "path \<Rightarrow> node \<Rightarrow> (path \<times> string list \<times> string list) list"
  and walk_entries :: "path \<Rightarrow> (string \<times> node) list \<Rightarrow> (path \<times> string list \<times> string list) list"
  where
  "walk_node here (File s) = []"
| "walk_node here (Dir es) = walk_entries here es @ [(here, dirnames es, filenames es)]"
| "walk_entries here [] = []"
| "walk_entries here ((name, c) # es) =
     (if is_dir_node c then walk_node (here @ [name]) c else []) @ walk_entries here es"
  by pat_completeness auto
termination
  by (relation "measure (\<lambda>x. case x of
        Inl (here, t) \<Rightarrow> size t
      | Inr (here, es) \<Rightarrow> size_list (size_prod (\<lambda>n. 0) size) es)") auto

definition os_walk :: "node \<Rightarrow> path \<Rightarrow> (path \<times> string list \<times> string list) list" where
  "os_walk t here = (case lookup t here of Some (Dir es) \<Rightarrow> walk_node here (Dir es) | _ \<Rightarrow> [])"

definition all_files_of :: "(path \<times> string list \<times> string list) list \<Rightarrow> path list" where
  "all_files_of ws = concat (map (\<lambda>(here, dirs, files). map (\<lambda>name. here @ [name]) files) ws)"

definition all_dirs_of :: "(path \<times> string list \<times> string list) list \<Rightarrow> path list" where
  "all_dirs_of ws = concat (map (\<lambda>(here, dirs, files). map (\<lambda>name. here @ [name]) dirs) ws)"

section \<open>The deletion engine\<close>

text \<open>
  \<open>secure_delete_folder(folder_path, passes, rename_files)\<close>, lines 423--620. The two
  variants of each loop (with and without a progress bar) differ only in what they print;
  one is modelled. The function prints its report; the model returns it with the
  function's return value (\<open>None\<close>, or the parent directory).
\<close>

text \<open>Line 470: \<open>sum(os.path.getsize(f) for f in all_files if os.path.exists(f))\<close>, outside
  any \<open>try\<close>.\<close>

fun total_size_scan :: "path list \<Rightarrow> world \<Rightarrow> (oserror + nat) \<times> world" where
  "total_size_scan [] w = (Inr 0, w)"
| "total_size_scan (f # rest) w =
     (let (ex, w1) = path_exists f w in
      if ex then
        (case getsize f w1 of
           (Inl e, w2) \<Rightarrow> (Inl e, w2)
         | (Inr s, w2) \<Rightarrow>
             (case total_size_scan rest w2 of
                (Inl e, w3) \<Rightarrow> (Inl e, w3)
              | (Inr acc, w3) \<Rightarrow> (Inr (s + acc), w3)))
      else total_size_scan rest w1)"

datatype item_type = file_item | dir_item

text \<open>Lines 486--526: the files, then the directories, each renamed three times when it
  still exists; a failed chain keeps the original path in the list.\<close>

fun rename_items ::
  "(path \<times> item_type) list \<Rightarrow> path list \<Rightarrow> path list \<Rightarrow> world \<Rightarrow> (path list \<times> path list) \<times> world" where
  "rename_items [] renamed_files renamed_dirs w = ((renamed_files, renamed_dirs), w)"
| "rename_items ((item_path, ty) # rest) renamed_files renamed_dirs w =
     (let (ex, w1) = path_exists item_path w in
      if ex then
        (let (new_path, w2) = secure_rename item_path 3 w1;
             kept = (case new_path of Some np \<Rightarrow> np | None \<Rightarrow> item_path)
         in if ty = file_item
            then rename_items rest (renamed_files @ [kept]) renamed_dirs w2
            else rename_items rest renamed_files (renamed_dirs @ [kept]) w2)
      else rename_items rest renamed_files renamed_dirs w1)"

text \<open>Lines 531--550: the overwrite phase.\<close>

fun delete_files :: "path list \<Rightarrow> nat \<Rightarrow> nat \<Rightarrow> world \<Rightarrow> nat \<times> world" where
  "delete_files [] passes success_count w = (success_count, w)"
| "delete_files (filepath # rest) passes success_count w =
     (let (ex, w1) = path_exists filepath w in
      if ex then
        (let (r, w2) = secure_delete_file filepath passes w1
         in delete_files rest passes (if r = Some True then success_count + 1 else success_count) w2)
      else delete_files rest passes success_count w1)"

text \<open>Lines 554--575: the teardown. \<open>os.rmdir\<close> raising an \<open>OSError\<close> leads to
  \<open>shutil.rmtree\<close>; when that raises too, the directory is passed over.\<close>

fun remove_dirs :: "path list \<Rightarrow> path list \<Rightarrow> world \<Rightarrow> path list \<times> world" where
  "remove_dirs [] failed_deletes w = (failed_deletes, w)"
| "remove_dirs (dirpath # rest) failed_deletes w =
     (let (ex, w1) = path_exists dirpath w in
      if ex then
        (case syscall (Rmdir dirpath) w1 of
           (Inr u, w2) \<Rightarrow> remove_dirs rest failed_deletes w2
         | (Inl e, w2) \<Rightarrow>
             (case syscall (Rmtree dirpath) w2 of
                (Inr u, w3) \<Rightarrow> remove_dirs rest (failed_deletes @ [dirpath]) w3
              | (Inl e', w3) \<Rightarrow> remove_dirs rest failed_deletes w3))
      else remove_dirs rest failed_deletes w1)"

text \<open>Lines 577--589: the root folder.\<close>

definition remove_root :: "path \<Rightarrow> path list \<Rightarrow> world \<Rightarrow> path list \<times> world" where
  "remove_root folder failed_deletes w =
     (case syscall (Rmdir folder) w of
        (Inr u, w1) \<Rightarrow> (failed_deletes, w1)
      | (Inl e, w1) \<Rightarrow>
          (case syscall (Rmtree folder) w1 of
             (Inr u, w2) \<Rightarrow> (failed_deletes @ [folder], w2)
           | (Inl e', w2) \<Rightarrow> (failed_deletes, w2)))"

record report =
  total_files :: nat
  success_count :: nat
  failed_deletes :: "path list"
  total_size :: nat

definition secure_delete_folder ::
  "path \<Rightarrow> nat \<Rightarrow> bool \<Rightarrow> world \<Rightarrow> (oserror + path option \<times> report option) \<times> world" where
  "secure_delete_folder folder passes rename_files w =
     (let (ex, w1) = path_exists folder w in
      if \<not> ex then (Inr (None, None), w1)
      else
        (let (isd, w2) = is_dir folder w1 in
         if \<not> isd then (Inr (None, None), w2)
         else
           (let walked = os_walk (fs w2) folder;
                all_files = all_files_of walked;
                all_dirs = all_dirs_of walked
            in if length all_files = 0 \<and> length all_dirs = 0
               then (Inr (Some (butlast folder), None), w2)
               else
                 (case total_size_scan all_files w2 of
                    (Inl e, w3) \<Rightarrow> (Inl e, w3)
                  | (Inr scanned, w3) \<Rightarrow>
                      (let ((files, dirs), w4) =
                             (if rename_files
                              then rename_items (map (\<lambda>f. (f, file_item)) all_files
                                                  @ map (\<lambda>d. (d, dir_item)) all_dirs) [] [] w3
                              else ((all_files, all_dirs), w3));
                           (succeeded, w5) = delete_files files passes 0 w4;
                           (failed, w6) = remove_dirs dirs [] w5;
                           (failed', w7) = remove_root folder failed w6
                       in (Inr (Some (butlast folder),
                                Some \<lparr>total_files = length all_files, success_count = succeeded,
                                      failed_deletes = failed', total_size = scanned\<rparr>), w7))))))"

section \<open>The journal flood\<close>

text \<open>
  \<open>flood_journal(path, num_files)\<close>, lines 623--759. \<open>elapsed\<close> is the difference of the two
  readings of \<open>time.time()\<close>, which the environment decides; the report divides by it, and a
  division by zero raises like any other exception of the \<open>try\<close> block, whose handler
  removes the temporary directory with \<open>shutil.rmtree\<close>.
\<close>

text \<open>Lines 678--694: \<open>created_files\<close> receives the path of every dummy file written.\<close>

fun create_dummy_files :: "nat \<Rightarrow> path \<Rightarrow> path list \<Rightarrow> world \<Rightarrow> (exn + path list) \<times> world" where
  "create_dummy_files 0 temp_dir created_files w = (Inr created_files, w)"
| "create_dummy_files (Suc i) temp_dir created_files w =
     (case token_hex 24 w of
        (Inl e, w1) \<Rightarrow> (Inl e, w1)
      | (Inr name, w1) \<Rightarrow>
          (let dummy_file = temp_dir @ [name @ ''.tmp''] in
           case syscall (WriteBytes dummy_file 1024) (consume_entropy 1024 w1) of
             (Inl e, w2) \<Rightarrow> (Inl (OSError e), w2)
           | (Inr u, w2) \<Rightarrow> create_dummy_files i temp_dir (created_files @ [dummy_file]) w2))"

text \<open>Lines 696--709: the value \<open>secure_rename\<close> returns is not used.\<close>

fun rename_created :: "path list \<Rightarrow> world \<Rightarrow> world" where
  "rename_created [] w = w"
| "rename_created (file_path # rest) w =
     (let (ex, w1) = path_exists file_path w in
      if ex then rename_created rest (snd (secure_rename file_path 3 w1))
      else rename_created rest w1)"

text \<open>Lines 711--730: every exception of \<open>unlink\<close> is swallowed.\<close>

fun delete_created :: "path list \<Rightarrow> world \<Rightarrow> world" where
  "delete_created [] w = w"
| "delete_created (file_path # rest) w =
     (let (ex, w1) = path_exists file_path w in
      if ex then delete_created rest (snd (syscall (Remove file_path) w1))
      else delete_created rest w1)"

definition flood_journal_body :: "path \<Rightarrow> int \<Rightarrow> real \<Rightarrow> world \<Rightarrow> (exn + unit) \<times> world" where
  "flood_journal_body temp_dir num_files elapsed w =
     (case syscall (Mkdir temp_dir) w of
        (Inl e, w1) \<Rightarrow> (Inl (OSError e), w1)
      | (Inr u, w1) \<Rightarrow>
          (case create_dummy_files (nat num_files) temp_dir [] w1 of
             (Inl e, w2) \<Rightarrow> (Inl e, w2)
           | (Inr created_files, w2) \<Rightarrow>
               (let w3 = rename_created created_files w2;
                    w4 = delete_created created_files w3;
                    w5 = snd (syscall (Rmdir temp_dir) w4)
                in if elapsed = 0 then (Inl ZeroDivisionError, w5) else (Inr (), w5))))"

definition flood_journal ::
  "path \<Rightarrow> int option \<Rightarrow> exn + string \<Rightarrow> (string \<Rightarrow> int option \<times> int option) \<Rightarrow> real
    \<Rightarrow> world \<Rightarrow> (exn + unit) \<times> world" where
  "flood_journal path num_files drive get_journal_size elapsed w =
     (let n = flood_journal_num_files num_files (win32 w) drive get_journal_size in
      case token_hex 8 w of
        (Inl e, w1) \<Rightarrow> (Inl e, w1)
      | (Inr hex, w1) \<Rightarrow>
          (let temp_dir = path @ [''_journal_flood_'' @ hex] in
           case flood_journal_body temp_dir n elapsed w1 of
             (Inr u, w2) \<Rightarrow> (Inr (), w2)
           | (Inl e, w2) \<Rightarrow>
               (let (ex, w3) = path_exists temp_dir w2 in
                if ex then (Inr (), snd (syscall (Rmtree temp_dir) w3)) else (Inr (), w3))))"

section \<open>Reading the log\<close>

text \<open>
  The writes one overwrite pass over \<open>S\<close> bytes is expected to issue from offset \<open>off\<close>:
  consecutive chunks of \<open>chunk_size\<close> bytes, the last one shorter when \<open>S\<close> is not a multiple.
\<close>

definition expected_writes :: "path \<Rightarrow> nat \<Rightarrow> nat \<Rightarrow> (call \<times> bool) list" where
  "expected_writes p off S =
     map (\<lambda>i. (Write p (off + i * chunk_size) (min chunk_size (S - i * chunk_size)), True))
       [0 ..< (S + chunk_size - 1) div chunk_size]"

fun written :: "call \<times> bool \<Rightarrow> nat" where
  "written (Write p off n, ok) = n"
| "written e = 0"

text \<open>The paths asked for with \<open>os.path.exists\<close>, and the directories on which a removal
  (\<open>os.rmdir\<close> or \<open>shutil.rmtree\<close>) was attempted, in the order of the log.\<close>

fun exists_queries :: "(call \<times> bool) list \<Rightarrow> path list" where
  "exists_queries [] = []"
| "exists_queries ((Exists p, b) # evs) = p # exists_queries evs"
| "exists_queries (e # evs) = exists_queries evs"

fun is_dir_removal :: "call \<Rightarrow> bool" where
  "is_dir_removal (Rmdir p) = True"
| "is_dir_removal (Rmtree p) = True"
| "is_dir_removal c = False"

fun is_file_op :: "call \<Rightarrow> bool" where
  "is_file_op (Open p) = True"
| "is_file_op (Seek p off) = True"
| "is_file_op (Write p off n) = True"
| "is_file_op (Flush p) = True"
| "is_file_op (Fsync p) = True"
| "is_file_op (Close p) = True"
| "is_file_op (Remove p) = True"
| "is_file_op c = False"

fun is_exists :: "call \<Rightarrow> bool" where
  "is_exists (Exists p) = True"
| "is_exists c = False"

fun is_stat :: "call \<Rightarrow> bool" where
  "is_stat (IsFile p) = True"
| "is_stat (IsDir p) = True"
| "is_stat (GetSize p) = True"
| "is_stat c = False"

definition is_query :: "call \<Rightarrow> bool" where
  "is_query c = (is_exists c \<or> is_stat c)"

fun is_rename :: "call \<Rightarrow> bool" where
  "is_rename (Rename src dst) = True"
| "is_rename c = False"

fun rmdir_attempts :: "(call \<times> bool) list \<Rightarrow> path list" where
  "rmdir_attempts [] = []"
| "rmdir_attempts ((Rmdir p, ok) # evs) = p # rmdir_attempts evs"
| "rmdir_attempts (e # evs) = rmdir_attempts evs"

text \<open>\<open>issues Q w w'\<close>: from \<open>w\<close> to \<open>w'\<close> the log has only grown, and by calls of kind \<open>Q\<close>.\<close>

definition issues :: "(call \<Rightarrow> bool) \<Rightarrow> world \<Rightarrow> world \<Rightarrow> bool" where
  "issues Q w w' = (\<exists>evs. trace w' = trace w @ evs \<and> list_all (\<lambda>e. Q (fst e)) evs)"


text \<open>The files on which a removal (\<open>os.remove\<close>, \<open>Path.unlink\<close>) was attempted, and the
  files written by \<open>Path.write_bytes\<close>.\<close>

fun unlink_attempts :: "(call \<times> bool) list \<Rightarrow> path list" where
  "unlink_attempts [] = []"
| "unlink_attempts ((Remove p, ok) # evs) = p # unlink_attempts evs"
| "unlink_attempts (e # evs) = unlink_attempts evs"

fun files_written :: "(call \<times> bool) list \<Rightarrow> path list" where
  "files_written [] = []"
| "files_written ((WriteBytes p n, ok) # evs) = p # files_written evs"
| "files_written (e # evs) = files_written evs"

section \<open>Concrete runs\<close>

definition sample_entropy :: "nat \<Rightarrow> nat" where
  "sample_entropy i = 7 * i + 3"

definition empty_site :: world where
  "empty_site = \<lparr>fs = Dir [(''site'', Dir [])], win32 = False, entropy = sample_entropy,
                  drawn = 0, faults = [], trace = []\<rparr>"

text \<open>The spec's scenario: a target directory with three files of 0, 1024 and
  \<open>5 \<times> 10\<^sup>6\<close> bytes.\<close>

definition scenario :: world where
  "scenario = \<lparr>fs = Dir [(''target'', Dir [(''a'', File 0), (''b'', File 1024),
                                           (''c'', File 5000000)])],
               win32 = False, entropy = sample_entropy, drawn = 0, faults = [], trace = []\<rparr>"



text \<open>The names \<^const>\<open>secure_rename\<close> gives to a file: 48 lowercase hex digits and the
  extension \<open>.tmp\<close>.\<close>

definition generated_name :: "string \<Rightarrow> bool" where
  "generated_name y =
     (length y = 52 \<and> drop 48 y = ''.tmp'' \<and> list_all (\<lambda>c. c \<in> set hex_alphabet) (take 48 y))"

text \<open>The spec's scenario when the environment lets the first rename through and refuses
  the second.\<close>

definition interrupted_scenario :: world where
  "interrupted_scenario = scenario\<lparr>faults := [None, Some PermissionError]\<rparr>"

text \<open>The paths of one kind in the combined list of the rename phase.\<close>

definition items_of :: "item_type \<Rightarrow> (path \<times> item_type) list \<Rightarrow> path list" where
  "items_of ty items = map fst (filter (\<lambda>i. snd i = ty) items)"

text \<open>The stages of one journal flood of a single file in \<^const>\<open>empty_site\<close>: after the
  temporary directory is made, after the dummy file is written, after the rename phase,
  and at the end.\<close>

definition flood_made :: world where
  "flood_made = \<lparr>fs = Dir [(''site'', Dir [(''_journal_flood_030a11181f262d34'', Dir [])])],
     win32 = False, entropy = sample_entropy, drawn = 8, faults = [],
     trace = [(Mkdir [''site'', ''_journal_flood_030a11181f262d34''], True)]\<rparr>"

definition flood_created :: world where
  "flood_created = \<lparr>fs = Dir [(''site'', Dir [(''_journal_flood_030a11181f262d34'',
        Dir [(''3b424950575e656c737a81888f969da4abb2b9c0c7ced5dc.tmp'', File 1024)])])],
     win32 = False, entropy = sample_entropy, drawn = 1056, faults = [],
     trace = [(Mkdir [''site'', ''_journal_flood_030a11181f262d34''], True),
              (WriteBytes [''site'', ''_journal_flood_030a11181f262d34'',
                           ''3b424950575e656c737a81888f969da4abb2b9c0c7ced5dc.tmp''] 1024, True)]\<rparr>"

definition flood_renamed :: world where
  "flood_renamed = \<lparr>fs = Dir [(''site'', Dir [(''_journal_flood_030a11181f262d34'',
        Dir [(''333a41484f565d646b727980878e959ca3aab1b8bfc6cdd4.tmp'', File 1024)])])],
     win32 = False, entropy = sample_entropy, drawn = 1128, faults = [],
     trace = [(Mkdir [''site'', ''_journal_flood_030a11181f262d34''], True),
              (WriteBytes [''site'', ''_journal_flood_030a11181f262d34'',
                           ''3b424950575e656c737a81888f969da4abb2b9c0c7ced5dc.tmp''] 1024, True),
              (Exists [''site'', ''_journal_flood_030a11181f262d34'',
                       ''3b424950575e656c737a81888f969da4abb2b9c0c7ced5dc.tmp''], True),
              (IsFile [''site'', ''_journal_flood_030a11181f262d34'',
                       ''3b424950575e656c737a81888f969da4abb2b9c0c7ced5dc.tmp''], True),
              (Rename [''site'', ''_journal_flood_030a11181f262d34'',
                       ''3b424950575e656c737a81888f969da4abb2b9c0c7ced5dc.tmp'']
                      [''site'', ''_journal_flood_030a11181f262d34'',
                       ''e3eaf1f8ff060d141b222930373e454c535a61686f767d84.tmp''], True),
              (IsFile [''site'', ''_journal_flood_030a11181f262d34'',
                       ''e3eaf1f8ff060d141b222930373e454c535a61686f767d84.tmp''], True),
              (Rename [''site'', ''_journal_flood_030a11181f262d34'',
                       ''e3eaf1f8ff060d141b222930373e454c535a61686f767d84.tmp'']
                      [''site'', ''_journal_flood_030a11181f262d34'',
                       ''8b9299a0a7aeb5bcc3cad1d8dfe6edf4fb020910171e252c.tmp''], True),
              (IsFile [''site'', ''_journal_flood_030a11181f262d34'',
                       ''8b9299a0a7aeb5bcc3cad1d8dfe6edf4fb020910171e252c.tmp''], True),
              (Rename [''site'', ''_journal_flood_030a11181f262d34'',
                       ''8b9299a0a7aeb5bcc3cad1d8dfe6edf4fb020910171e252c.tmp'']
                      [''site'', ''_journal_flood_030a11181f262d34'',
                       ''333a41484f565d646b727980878e959ca3aab1b8bfc6cdd4.tmp''], True)]\<rparr>"

definition flood_done :: world where
  "flood_done = flood_renamed\<lparr>trace := trace flood_renamed @
      [(Exists [''site'', ''_journal_flood_030a11181f262d34'',
                ''3b424950575e656c737a81888f969da4abb2b9c0c7ced5dc.tmp''], False),
       (Rmdir [''site'', ''_journal_flood_030a11181f262d34''], False)]\<rparr>"

section \<open>Capacity heuristics: the theorems\<close>








section \<open>Random names: the theorems\<close>

lemma length_hexlify: "length (hexlify bs) = 2 * length bs"
  by (induction bs) (simp_all add: hexlify_def hex_byte_def)

lemma hex_digit_lower: "d < 16 \<Longrightarrow> hex_digit d \<in> set hex_alphabet"
  unfolding hex_digit_def by (rule nth_mem) (simp add: hex_alphabet_def)

lemma set_hexlify:
  "\<forall>b \<in> set bs. b < 256 \<Longrightarrow> set (hexlify bs) \<subseteq> set hex_alphabet"
proof (induction bs)
  case Nil
  show ?case by (simp add: hexlify_def)
next
  case (Cons b bs)
  have "b div 16 < 16" "b mod 16 < 16" using Cons.prems by auto
  then have "set (hex_byte b) \<subseteq> set hex_alphabet"
    by (simp add: hex_byte_def hex_digit_lower)
  moreover have "set (hexlify bs) \<subseteq> set hex_alphabet"
    using Cons by simp
  moreover have "hexlify (b # bs) = hex_byte b @ hexlify bs"
    by (simp add: hexlify_def)
  ultimately show ?case by simp
qed

lemma random_bytes_small: "\<forall>b \<in> set (random_bytes n w). b < 256"
  by (simp add: random_bytes_def)

lemma length_random_bytes: "length (random_bytes n w) = n"
  by (simp add: random_bytes_def)

text \<open>
  Claim C5, as the code has it. The argument of the name generator is the length of the
  name, not a number of bytes: for every non-negative \<open>len\<close> it draws \<open>len div 2\<close> random
  bytes and returns their lowercase hex encoding, a string of exactly \<open>2 * (len div 2)\<close>
  characters (the default 48 gives 24 random bytes and 48 characters). The call changes
  nothing but the position in the random source: the file system and the log of calls
  are as before.
\<close>

theorem generate_random_name_hex:
  assumes "0 \<le> len"
  shows "\<exists>s. generate_random_name len w = (Inr s, w\<lparr>drawn := drawn w + nat (len div 2)\<rparr>)
           \<and> length s = 2 * nat (len div 2)
           \<and> set s \<subseteq> set hex_alphabet"
proof -
  from assms have "\<not> len div 2 < 0" by simp
  then show ?thesis
    by (simp add: generate_random_name_def token_hex_def consume_entropy_def
        length_hexlify length_random_bytes set_hexlify random_bytes_small)
qed

theorem generate_random_name_hex_witness:
  "(\<exists>s. fst (generate_random_name 48 empty_site) = Inr s \<and> length s = 48)
   \<and> fs (snd (generate_random_name 48 empty_site)) = fs empty_site
   \<and> trace (snd (generate_random_name 48 empty_site)) = trace empty_site"
  using generate_random_name_hex [of 48 empty_site] by auto

text \<open>With the argument 24 the name has 24 characters, not \<open>2 * 24\<close>.\<close>

theorem generate_random_name_24_counterexample:
  "map_sum id length (fst (generate_random_name 24 empty_site)) = Inr 24 \<and> (24::nat) \<noteq> 2 * 24"
  by (simp add: generate_random_name_def token_hex_def length_hexlify length_random_bytes)

section \<open>The file system: lemmas\<close>

lemma lookup_alter_None: "p \<noteq> [] \<Longrightarrow> lookup (alter p None t) p = None"
  by (induction p "None :: node option" t rule: alter.induct)
     (auto simp: set_entry_def delete_conv' update_conv' split: option.splits)

lemma lookup_alter_Some:
  "lookup t p = Some m \<Longrightarrow> p \<noteq> [] \<Longrightarrow> lookup (alter p (Some n) t) p = Some n"
  by (induction p "Some n" t arbitrary: m rule: alter.induct)
     (auto simp: set_entry_def delete_conv' update_conv' split: option.splits)

lemma lookup_alter_new:
  "lookup t (butlast p) = Some (Dir es) \<Longrightarrow> p \<noteq> [] \<Longrightarrow> lookup (alter p (Some n) t) p = Some n"
  by (induction p "Some n" t arbitrary: es rule: alter.induct)
     (auto simp: set_entry_def delete_conv' update_conv' split: option.splits if_splits)

lemma syscall_quiet:
  "next_fault w = None \<Longrightarrow> effect (win32 w) c (fs w) = Inr t \<Longrightarrow>
   syscall c w = (Inr (), log c True (w\<lparr>fs := t, faults := tl (faults w)\<rparr>))"
  by (simp add: syscall_def)

lemma syscall_refused:
  "next_fault w = Some e \<Longrightarrow>
   syscall c w = (Inl e, log c False (w\<lparr>faults := tl (faults w)\<rparr>))"
  by (simp add: syscall_def)

lemma syscall_trace:
  "syscall c w = (r, w') \<Longrightarrow> trace w' = trace w @ [(c, isl r = False)]"
  by (auto simp: syscall_def log_def split: option.splits sum.splits)

section \<open>Sanitizing one file: the theorems\<close>

text \<open>
  Claim C9. For every zero-length file, sanitization removes the file directly: the only
  calls are the two queries and the removal, so no write (and no open) is issued; and
  the outcome is a success, with the file gone, whenever the environment does not refuse
  the removal itself.
\<close>

theorem zero_length_file_removed_directly:
  assumes "lookup (fs w) p = Some (File 0)" and "p \<noteq> []"
  shows "\<exists>w'. secure_delete_file p passes w = (Some (next_fault w = None), w')
          \<and> trace w' = trace w @ [(IsFile p, True), (GetSize p, True), (Remove p, next_fault w = None)]
          \<and> (next_fault w = None \<longrightarrow> lookup (fs w') p = None)"
  using assms
  by (cases "next_fault w")
     (simp_all add: secure_delete_file_def secure_delete_file_body_def is_file_def getsize_def
        log_def syscall_def next_fault_def lookup_alter_None)

theorem zero_length_file_removed_directly_witness:
  "lookup (fs scenario) [''target'', ''a''] = Some (File 0)
   \<and> fst (secure_delete_file [''target'', ''a''] 3 scenario) = Some True
   \<and> trace (snd (secure_delete_file [''target'', ''a''] 3 scenario))
       = [(IsFile [''target'', ''a''], True), (GetSize [''target'', ''a''], True),
          (Remove [''target'', ''a''], True)]
   \<and> lookup (fs (snd (secure_delete_file [''target'', ''a''] 3 scenario))) [''target'', ''a''] = None"
proof -
  have f: "lookup (fs scenario) [''target'', ''a''] = Some (File 0)"
    by (simp add: scenario_def)
  have q: "next_fault scenario = None" "trace scenario = []"
    by (simp_all add: scenario_def next_fault_def)
  from zero_length_file_removed_directly [OF f, of 3] f q
  show ?thesis by auto
qed

lemma chunk_size_pos: "0 < chunk_size" by (simp add: chunk_size_def)

lemma expected_writes_zero: "expected_writes p off 0 = []"
  using chunk_size_pos by (simp add: expected_writes_def)

lemma expected_writes_step:
  assumes "0 < S"
  shows "expected_writes p off S =
           (Write p off (min chunk_size S), True)
           # expected_writes p (off + min chunk_size S) (S - min chunk_size S)"
proof (cases "S \<le> chunk_size")
  case True
  with assms have "(S + chunk_size - 1) div chunk_size = 1"
    by (simp add: div_eq_dividend_iff le_div_geq)
  with True chunk_size_pos show ?thesis
    by (simp add: expected_writes_def min_absorb2)
next
  case False
  then have big: "chunk_size < S" by simp
  then have "(S + chunk_size - 1) div chunk_size = Suc ((S - chunk_size + chunk_size - 1) div chunk_size)"
    using chunk_size_pos by (simp add: le_div_geq)
  moreover have "[0 ..< Suc n] = 0 # map Suc [0 ..< n]" for n
    by (simp add: upt_conv_Cons map_Suc_upt del: upt_Suc)
  ultimately show ?thesis
    using big by (simp add: expected_writes_def min_absorb1 comp_def add.assoc diff_diff_eq del: upt_Suc)
qed


lemma sum_expected_writes: "sum_list (map written (expected_writes p off S)) = S"
proof (induction S arbitrary: off rule: less_induct)
  case (less S)
  show ?case
  proof (cases "S = 0")
    case True
    then show ?thesis by (simp add: expected_writes_zero)
  next
    case False
    then have pos: "0 < S" by simp
    then have "S - min chunk_size S < S" using chunk_size_pos by simp
    from less.IH [OF this] pos show ?thesis
      by (simp add: expected_writes_step [OF pos])
  qed
qed

lemma expected_writes_bounded:
  "e \<in> set (expected_writes p off S) \<Longrightarrow> 0 < written e \<and> written e \<le> chunk_size"
proof (induction S arbitrary: off rule: less_induct)
  case (less S)
  show ?case
  proof (cases "S = 0")
    case True
    with less.prems show ?thesis by (simp add: expected_writes_zero)
  next
    case False
    then have pos: "0 < S" by simp
    then have smaller: "S - min chunk_size S < S" using chunk_size_pos by simp
    from less.prems consider "e = (Write p off (min chunk_size S), True)"
      | "e \<in> set (expected_writes p (off + min chunk_size S) (S - min chunk_size S))"
      by (auto simp: expected_writes_step [OF pos])
    then show ?thesis
    proof cases
      case 1
      with pos chunk_size_pos show ?thesis by simp
    next
      case 2
      from less.IH [OF smaller 2] show ?thesis .
    qed
  qed
qed

lemma quiet_plain:
  assumes "faults w = []" and "effect (win32 w) c (fs w) = Inr (fs w)"
  shows "syscall c w = (Inr (), log c True w)"
  using assms by (simp add: syscall_def next_fault_def log_def)

lemma write_chunks_quiet:
  assumes "faults w = []" and "lookup (fs w) p = Some (File s)" and "p \<noteq> []"
  shows "\<exists>w'. write_chunks p off remaining w = (Inr (), w')
          \<and> trace w' = trace w @ expected_writes p off remaining
          \<and> faults w' = [] \<and> (\<exists>s'. lookup (fs w') p = Some (File s'))"
  using assms
proof (induction p off remaining w arbitrary: s rule: write_chunks.induct)
  case (1 p off remaining w)
  show ?case
  proof (cases "0 < remaining")
    case False
    with 1 show ?thesis by (simp add: expected_writes_zero)
  next
    case True
    define chunk where "chunk = min chunk_size remaining"
    define w1 where "w1 = log (Write p off chunk) True
       ((consume_entropy chunk w)\<lparr>fs := alter p (Some (File (max s (off + chunk)))) (fs w), faults := []\<rparr>)"
    have step: "syscall (Write p off chunk) (consume_entropy chunk w) = (Inr (), w1)"
      using 1(2,3) by (simp add: syscall_def next_fault_def consume_entropy_def w1_def)
    have w1: "faults w1 = []" "lookup (fs w1) p = Some (File (max s (off + chunk)))"
      "trace w1 = trace w @ [(Write p off chunk, True)]"
      using 1(3,4) by (simp_all add: w1_def log_def consume_entropy_def lookup_alter_Some)
    from "1.IH" [OF True chunk_def step [symmetric] refl w1(1) w1(2) "1.prems"(3)]
    obtain w' where rec: "write_chunks p (off + chunk) (remaining - chunk) w1 = (Inr (), w')"
      "trace w' = trace w1 @ expected_writes p (off + chunk) (remaining - chunk)"
      "faults w' = []" "\<exists>s'. lookup (fs w') p = Some (File s')"
      by auto
    have "write_chunks p off remaining w = (Inr (), w')"
      using True step rec(1) by (subst write_chunks.simps) (simp add: chunk_def Let_def)
    with rec w1(3) show ?thesis
      by (simp add: expected_writes_step [OF True] chunk_def)
  qed
qed

lemma overwrite_passes_quiet:
  assumes "faults w = []" and "lookup (fs w) p = Some (File s)" and "p \<noteq> []"
  shows "\<exists>w'. overwrite_passes k p S w = (Inr (), w')
          \<and> trace w' = trace w @ concat (replicate k ((Seek p 0, True) # expected_writes p 0 S))
          \<and> faults w' = [] \<and> (\<exists>s'. lookup (fs w') p = Some (File s'))"
  using assms
proof (induction k arbitrary: w s)
  case 0
  then show ?case by simp
next
  case (Suc k)
  have seek: "syscall (Seek p 0) w = (Inr (), log (Seek p 0) True w)"
    using Suc.prems(1) by (simp add: quiet_plain)
  let ?w1 = "log (Seek p 0) True w"
  have w1: "faults ?w1 = []" "lookup (fs ?w1) p = Some (File s)"
    using Suc.prems by (simp_all add: log_def)
  from write_chunks_quiet [OF w1 Suc.prems(3), of 0 S]
  obtain w2 where w2: "write_chunks p 0 S ?w1 = (Inr (), w2)"
    "trace w2 = trace ?w1 @ expected_writes p 0 S" "faults w2 = []"
    "\<exists>s'. lookup (fs w2) p = Some (File s')"
    by blast
  from w2(4) obtain s' where "lookup (fs w2) p = Some (File s')" ..
  from Suc.IH [OF w2(3) this Suc.prems(3)]
  obtain w' where w': "overwrite_passes k p S w2 = (Inr (), w')"
    "trace w' = trace w2 @ concat (replicate k ((Seek p 0, True) # expected_writes p 0 S))"
    "faults w' = []" "\<exists>s'. lookup (fs w') p = Some (File s')"
    by blast
  have "overwrite_passes (Suc k) p S w = (Inr (), w')"
    using seek w2(1) w'(1) by simp
  with w' w2(2) show ?case by (simp add: log_def)
qed

text \<open>
  Claim C8. For every non-empty file of size \<open>S\<close> and every pass count \<open>k\<close>, when the
  environment refuses nothing, sanitization opens the file, performs exactly \<open>k\<close> passes,
  each a seek to offset 0 followed by consecutive writes of at most \<open>chunk_size\<close> bytes that
  add up to exactly \<open>S\<close>, then issues one flush and one fsync (none between the passes),
  closes the file, and only then removes it; the result is \<open>True\<close>.
\<close>

theorem nonempty_file_overwrite_trace:
  assumes "lookup (fs w) p = Some (File S)" and "0 < S" and "p \<noteq> []" and "faults w = []"
  shows "\<exists>w'. secure_delete_file p k w = (Some True, w')
          \<and> trace w' = trace w
               @ [(IsFile p, True), (GetSize p, True), (Open p, True)]
               @ concat (replicate k ((Seek p 0, True) # expected_writes p 0 S))
               @ [(Flush p, True), (Fsync p, True), (Close p, True), (Remove p, True)]
          \<and> lookup (fs w') p = None
          \<and> sum_list (map written (expected_writes p 0 S)) = S
          \<and> (\<forall>e \<in> set (expected_writes p 0 S). 0 < written e \<and> written e \<le> chunk_size)"
proof -
  let ?w0 = "log (IsFile p) True w"
  let ?w1 = "log (GetSize p) True ?w0"
  let ?w2 = "log (Open p) True ?w1"
  have isf: "is_file p w = (True, ?w0)"
    using assms(1) by (simp add: is_file_def)
  have gs: "getsize p ?w0 = (Inr S, ?w1)"
    using assms(1) by (simp add: getsize_def log_def)
  have opn: "syscall (Open p) ?w1 = (Inr (), ?w2)"
    using assms(1,4) by (simp add: quiet_plain log_def)
  have w2: "faults ?w2 = []" "lookup (fs ?w2) p = Some (File S)"
    using assms by (simp_all add: log_def)
  from overwrite_passes_quiet [OF w2 assms(3), of k S]
  obtain w3 where w3: "overwrite_passes k p S ?w2 = (Inr (), w3)"
    "trace w3 = trace ?w2 @ concat (replicate k ((Seek p 0, True) # expected_writes p 0 S))"
    "faults w3 = []" "\<exists>s'. lookup (fs w3) p = Some (File s')"
    by blast
  from w3(4) obtain s' where s': "lookup (fs w3) p = Some (File s')" ..
  let ?w4 = "log (Flush p) True w3"
  let ?w5 = "log (Fsync p) True ?w4"
  let ?w6 = "log (Close p) True ?w5"
  let ?w7 = "log (Remove p) True (?w6\<lparr>fs := alter p None (fs w3), faults := []\<rparr>)"
  have sync: "overwrite_and_sync p k S ?w2 = (Inr (), ?w5)"
    using w3(1,3) by (simp add: overwrite_and_sync_def quiet_plain log_def)
  have cls: "syscall (Close p) ?w5 = (Inr (), ?w6)"
    using w3(3) by (simp add: quiet_plain log_def)
  have rm: "syscall (Remove p) ?w6 = (Inr (), ?w7)"
    using w3(3) s' assms(3) by (simp add: syscall_def next_fault_def log_def)
  have res: "secure_delete_file p k w = (Some True, ?w7)"
    using isf gs opn sync cls rm assms(2)
    by (simp add: secure_delete_file_def secure_delete_file_body_def)
  have tr: "trace ?w7 = trace w
               @ [(IsFile p, True), (GetSize p, True), (Open p, True)]
               @ concat (replicate k ((Seek p 0, True) # expected_writes p 0 S))
               @ [(Flush p, True), (Fsync p, True), (Close p, True), (Remove p, True)]"
    using w3(2) by (simp add: log_def)
  have gone: "lookup (fs ?w7) p = None"
    using assms(3) by (simp add: log_def lookup_alter_None)
  from res tr gone sum_expected_writes [of p 0 S] expected_writes_bounded [of _ p 0 S]
  show ?thesis by blast
qed

theorem nonempty_file_overwrite_trace_witness:
  "lookup (fs scenario) [''target'', ''c''] = Some (File 5000000)
   \<and> fst (secure_delete_file [''target'', ''c''] 2 scenario) = Some True
   \<and> trace (snd (secure_delete_file [''target'', ''c''] 2 scenario))
       = [(IsFile [''target'', ''c''], True), (GetSize [''target'', ''c''], True),
          (Open [''target'', ''c''], True),
          (Seek [''target'', ''c''] 0, True),
          (Write [''target'', ''c''] 0 1048576, True),
          (Write [''target'', ''c''] 1048576 1048576, True),
          (Write [''target'', ''c''] 2097152 1048576, True),
          (Write [''target'', ''c''] 3145728 1048576, True),
          (Write [''target'', ''c''] 4194304 805696, True),
          (Seek [''target'', ''c''] 0, True),
          (Write [''target'', ''c''] 0 1048576, True),
          (Write [''target'', ''c''] 1048576 1048576, True),
          (Write [''target'', ''c''] 2097152 1048576, True),
          (Write [''target'', ''c''] 3145728 1048576, True),
          (Write [''target'', ''c''] 4194304 805696, True),
          (Flush [''target'', ''c''], True), (Fsync [''target'', ''c''], True),
          (Close [''target'', ''c''], True), (Remove [''target'', ''c''], True)]
   \<and> lookup (fs (snd (secure_delete_file [''target'', ''c''] 2 scenario))) [''target'', ''c''] = None"
proof -
  have f: "lookup (fs scenario) [''target'', ''c''] = Some (File 5000000)"
    by (simp add: scenario_def)
  have q: "faults scenario = []" "trace scenario = []"
    by (simp_all add: scenario_def)
  have e: "expected_writes [''target'', ''c''] 0 5000000
           = [(Write [''target'', ''c''] 0 1048576, True),
              (Write [''target'', ''c''] 1048576 1048576, True),
              (Write [''target'', ''c''] 2097152 1048576, True),
              (Write [''target'', ''c''] 3145728 1048576, True),
              (Write [''target'', ''c''] 4194304 805696, True)]"
    by (simp add: expected_writes_def chunk_size_def upt_rec)
  have two: "replicate 2 x = [x, x]" for x :: "(call \<times> bool) list"
    by (simp add: numeral_2_eq_2)
  from nonempty_file_overwrite_trace [OF f _ _ q(1), of 2] f q e
  show ?thesis by (auto simp: two)
qed

section \<open>The log of a run: lemmas\<close>

lemma issues_refl: "issues Q w w"
  by (simp add: issues_def)

lemma issues_trans: "issues Q w w1 \<Longrightarrow> issues Q w1 w2 \<Longrightarrow> issues Q w w2"
  by (auto simp: issues_def)

lemma issues_mono: "issues Q w w' \<Longrightarrow> (\<And>c. Q c \<Longrightarrow> Q' c) \<Longrightarrow> issues Q' w w'"
  by (auto simp: issues_def list_all_iff)

lemma issues_trace_eq: "trace v = trace w \<Longrightarrow> issues Q w w' \<Longrightarrow> issues Q v w'"
  by (simp add: issues_def)

lemma issues_log: "Q c \<Longrightarrow> issues Q w (log c b w)"
  by (simp add: issues_def log_def)

lemma issues_syscall: "Q c \<Longrightarrow> issues Q w (snd (syscall c w))"
  by (auto simp: syscall_def issues_def log_def split: option.splits sum.splits)

lemma issues_path_exists: "Q (Exists p) \<Longrightarrow> issues Q w (snd (path_exists p w))"
  by (simp add: path_exists_def issues_log Let_def)

lemma issues_is_file: "Q (IsFile p) \<Longrightarrow> issues Q w (snd (is_file p w))"
  by (simp add: is_file_def issues_log Let_def)

lemma issues_is_dir: "Q (IsDir p) \<Longrightarrow> issues Q w (snd (is_dir p w))"
  by (simp add: is_dir_def issues_log Let_def)

lemma issues_getsize: "Q (GetSize p) \<Longrightarrow> issues Q w (snd (getsize p w))"
  by (auto simp: getsize_def issues_log split: option.splits node.splits)

lemma trace_consume_entropy [simp]: "trace (consume_entropy n w) = trace w"
  by (simp add: consume_entropy_def)

lemma trace_generate_random_name [simp]: "trace (snd (generate_random_name n w)) = trace w"
  by (simp add: generate_random_name_def token_hex_def)

lemma issues_secure_rename_passes:
  "issues (\<lambda>c. is_stat c \<or> is_rename c) w (snd (secure_rename_passes i parent cur w))"
proof (induction i arbitrary: cur w)
  case 0
  show ?case by (simp add: issues_refl)
next
  case (Suc i)
  let ?Q = "\<lambda>c. is_stat c \<or> is_rename c"
  obtain isf w1 where isf: "is_file cur w = (isf, w1)" by (cases "is_file cur w")
  obtain r w2 where gen: "generate_random_name 48 w1 = (r, w2)" by (cases "generate_random_name 48 w1")
  have a: "issues ?Q w w1" using issues_is_file [of ?Q cur w] isf by simp
  have t2: "trace w2 = trace w1" using trace_generate_random_name [of 48 w1] gen by simp
  show ?case
  proof (cases r)
    case (Inl e)
    with isf gen a t2 show ?thesis by (auto simp: issues_def)
  next
    case (Inr name)
    define new where "new = parent @ [if isf then name @ ''.tmp'' else name]"
    obtain r' w3 where rn: "syscall (Rename cur new) w2 = (r', w3)" by (cases "syscall (Rename cur new) w2")
    have b: "issues ?Q w2 w3" using issues_syscall [of ?Q "Rename cur new" w2] rn by simp
    have c: "issues ?Q w w3" using a b t2 by (auto simp: issues_def)
    show ?thesis
    proof (cases r')
      case (Inl e)
      with isf gen Inr rn c show ?thesis by (simp add: new_def Let_def)
    next
      case (Inr u)
      from Suc.IH [where cur = new and w = w3] c have "issues ?Q w (snd (secure_rename_passes i parent new w3))"
        by (rule issues_trans [rotated])
      with isf gen \<open>r = Inr name\<close> rn Inr show ?thesis by (simp add: new_def Let_def)
    qed
  qed
qed

lemma issues_secure_rename:
  "issues (\<lambda>c. is_stat c \<or> is_rename c) w (snd (secure_rename p n w))"
  using issues_secure_rename_passes [of w n "butlast p" p]
  by (auto simp: secure_rename_def split: prod.splits sum.splits)

lemma issues_syscallD: "syscall c w = (r, w') \<Longrightarrow> Q c \<Longrightarrow> issues Q w w'"
  using issues_syscall [of Q c w] by simp

lemma issues_write_chunks:
  "write_chunks p off remaining w = (r, w') \<Longrightarrow> issues is_file_op w w'"
proof (induction p off remaining w arbitrary: r w' rule: write_chunks.induct)
  case (1 p off remaining w)
  show ?case
  proof (cases "0 < remaining")
    case False
    with "1.prems" show ?thesis by (simp add: issues_refl)
  next
    case True
    define chunk where "chunk = min chunk_size remaining"
    obtain r1 w1 where step: "syscall (Write p off chunk) (consume_entropy chunk w) = (r1, w1)"
      by (cases "syscall (Write p off chunk) (consume_entropy chunk w)")
    have a: "issues is_file_op w w1"
      using issues_syscallD [OF step, of is_file_op] by (auto simp: issues_def)
    show ?thesis
    proof (cases r1)
      case (Inl e)
      with "1.prems" True step a show ?thesis
        by (subst (asm) write_chunks.simps) (simp add: chunk_def Let_def)
    next
      case (Inr u)
      with "1.prems" True step
      have "write_chunks p (off + chunk) (remaining - chunk) w1 = (r, w')"
        by (subst (asm) write_chunks.simps) (simp add: chunk_def Let_def)
      from "1.IH" [OF True chunk_def step [symmetric] Inr this] a
      show ?thesis by (rule issues_trans [rotated])
    qed
  qed
qed

lemma issues_overwrite_passes:
  "overwrite_passes k p S w = (r, w') \<Longrightarrow> issues is_file_op w w'"
proof (induction k arbitrary: w r w')
  case 0
  then show ?case by (simp add: issues_refl)
next
  case (Suc k)
  then show ?case
    by (auto split: prod.splits sum.splits
        intro: issues_trans [OF issues_syscallD issues_write_chunks]
               issues_trans [OF issues_trans [OF issues_syscallD issues_write_chunks]]
        elim: issues_syscallD)
qed

lemma issues_overwrite_and_sync:
  "overwrite_and_sync p k S w = (r, w') \<Longrightarrow> issues is_file_op w w'"
  by (auto simp: overwrite_and_sync_def split: prod.splits sum.splits
      intro: issues_overwrite_passes issues_trans [OF issues_overwrite_passes issues_syscallD]
         issues_trans [OF issues_trans [OF issues_overwrite_passes issues_syscallD] issues_syscallD])

lemma issues_is_fileD: "is_file p w = (b, w') \<Longrightarrow> Q (IsFile p) \<Longrightarrow> issues Q w w'"
  using issues_is_file [of Q p w] by simp

lemma issues_path_existsD: "path_exists p w = (b, w') \<Longrightarrow> Q (Exists p) \<Longrightarrow> issues Q w w'"
  using issues_path_exists [of Q p w] by simp

lemma issues_getsizeD: "getsize p w = (r, w') \<Longrightarrow> Q (GetSize p) \<Longrightarrow> issues Q w w'"
  using issues_getsize [of Q p w] by simp

lemma issues_file_op: "issues is_file_op w w' \<Longrightarrow> issues (\<lambda>c. is_stat c \<or> is_file_op c) w w'"
  by (erule issues_mono) simp

lemma issues_secure_delete_file_body:
  assumes "secure_delete_file_body p k w = (r, w')"
  shows "issues (\<lambda>c. is_stat c \<or> is_file_op c) w w'"
proof -
  let ?Q = "\<lambda>c. is_stat c \<or> is_file_op c"
  note tr = issues_trans [where Q = ?Q]
  note sys = issues_syscallD [where Q = ?Q]
  obtain isf w0 where isf: "is_file p w = (isf, w0)" by (cases "is_file p w")
  have a0: "issues ?Q w w0" using issues_is_fileD [OF isf, of ?Q] by simp
  show ?thesis
  proof (cases isf)
    case False
    with assms isf a0 show ?thesis by (simp add: secure_delete_file_body_def)
  next
    case True
    obtain rs w1 where gs: "getsize p w0 = (rs, w1)" by (cases "getsize p w0")
    have a1: "issues ?Q w w1" using tr [OF a0 issues_getsizeD [OF gs, of ?Q]] by simp
    show ?thesis
    proof (cases rs)
      case (Inl e)
      with assms isf True gs a1 show ?thesis by (simp add: secure_delete_file_body_def)
    next
      case (Inr file_size)
      show ?thesis
      proof (cases "file_size = 0")
        case z: True
        obtain rr w2 where rm: "syscall (Remove p) w1 = (rr, w2)" by (cases "syscall (Remove p) w1")
        have "issues ?Q w w2" using tr [OF a1 sys [OF rm]] by simp
        with assms isf True gs Inr z rm show ?thesis
          by (auto simp: secure_delete_file_body_def split: sum.splits)
      next
        case nz: False
        obtain ro w2 where op: "syscall (Open p) w1 = (ro, w2)" by (cases "syscall (Open p) w1")
        have a2: "issues ?Q w w2" using tr [OF a1 sys [OF op]] by simp
        show ?thesis
        proof (cases ro)
          case (Inl e)
          with assms isf True gs Inr nz op a2 show ?thesis
            by (simp add: secure_delete_file_body_def)
        next
          case ok: (Inr u)
          obtain rw w3 where ow: "overwrite_and_sync p k file_size w2 = (rw, w3)"
            by (cases "overwrite_and_sync p k file_size w2")
          have a3: "issues ?Q w w3"
            using tr [OF a2 issues_file_op [OF issues_overwrite_and_sync [OF ow]]] .
          obtain rc w4 where cl: "syscall (Close p) w3 = (rc, w4)" by (cases "syscall (Close p) w3")
          have a4: "issues ?Q w w4" using tr [OF a3 sys [OF cl]] by simp
          obtain rr w5 where rm: "syscall (Remove p) w4 = (rr, w5)" by (cases "syscall (Remove p) w4")
          have a5: "issues ?Q w w5" using tr [OF a4 sys [OF rm]] by simp
          from assms isf True gs Inr nz op ok ow cl rm a4 a5 show ?thesis
            by (auto simp: secure_delete_file_body_def split: sum.splits)
        qed
      qed
    qed
  qed
qed

lemma issues_secure_delete_file:
  "secure_delete_file p k w = (r, w') \<Longrightarrow> issues (\<lambda>c. is_stat c \<or> is_file_op c) w w'"
  by (auto simp: secure_delete_file_def split: prod.splits sum.splits
      dest: issues_secure_delete_file_body)

lemma exists_queries_append [simp]:
  "exists_queries (xs @ ys) = exists_queries xs @ exists_queries ys"
  by (induction xs rule: exists_queries.induct) simp_all

lemma rmdir_attempts_append [simp]:
  "rmdir_attempts (xs @ ys) = rmdir_attempts xs @ rmdir_attempts ys"
  by (induction xs rule: rmdir_attempts.induct) simp_all

lemma exists_queries_none:
  "list_all (\<lambda>e. Q (fst e)) evs \<Longrightarrow> (\<And>p. \<not> Q (Exists p)) \<Longrightarrow> exists_queries evs = []"
  by (induction evs rule: exists_queries.induct) auto

lemma rmdir_attempts_none:
  "list_all (\<lambda>e. Q (fst e)) evs \<Longrightarrow> (\<And>p. \<not> Q (Rmdir p)) \<Longrightarrow> rmdir_attempts evs = []"
  by (induction evs rule: rmdir_attempts.induct) auto

lemma path_exists_eq:
  "path_exists p w = (lookup (fs w) p \<noteq> None, log (Exists p) (lookup (fs w) p \<noteq> None) w)"
  by (simp add: path_exists_def Let_def)

lemma delete_files_log:
  "delete_files files k c w = (c', w') \<Longrightarrow>
   \<exists>evs. trace w' = trace w @ evs
     \<and> list_all (\<lambda>e. is_query (fst e) \<or> is_file_op (fst e)) evs
     \<and> exists_queries evs = files \<and> c \<le> c' \<and> c' \<le> c + length files"
proof (induction files arbitrary: c w)
  case Nil
  then show ?case by simp
next
  case (Cons f files)
  let ?b = "lookup (fs w) f \<noteq> None"
  let ?w1 = "log (Exists f) ?b w"
  show ?case
  proof (cases ?b)
    case False
    with Cons.prems have "delete_files files k c ?w1 = (c', w')"
      by (simp add: path_exists_eq)
    from Cons.IH [OF this] show ?thesis
      by (auto simp: log_def is_query_def)
  next
    case True
    obtain r w2 where sd: "secure_delete_file f k ?w1 = (r, w2)"
      by (cases "secure_delete_file f k ?w1")
    from issues_secure_delete_file [OF sd]
    obtain evs1 where e1: "trace w2 = trace ?w1 @ evs1"
      "list_all (\<lambda>e. is_stat (fst e) \<or> is_file_op (fst e)) evs1"
      by (auto simp: issues_def)
    have q1: "exists_queries evs1 = []"
      by (rule exists_queries_none [OF e1(2)]) simp
    have c1: "list_all (\<lambda>e. is_query (fst e) \<or> is_file_op (fst e)) evs1"
      using e1(2) by (auto simp: list_all_iff is_query_def)
    from Cons.prems True sd
    have "delete_files files k (if r = Some True then c + 1 else c) w2 = (c', w')"
      by (simp add: path_exists_eq)
    from Cons.IH [OF this] obtain evs2 where e2: "trace w' = trace w2 @ evs2"
      "list_all (\<lambda>e. is_query (fst e) \<or> is_file_op (fst e)) evs2"
      "exists_queries evs2 = files" "c \<le> c'" "c' \<le> Suc c + length files"
      by (auto split: if_splits)
    show ?thesis
      using e1(1) e2 q1 c1 True
      by (intro exI [of _ "(Exists f, True) # evs1 @ evs2"]) (simp add: log_def is_query_def)
  qed
qed

lemma syscall_log:
  "syscall c w = (r, w') \<Longrightarrow> trace w' = trace w @ [(c, \<not> isl r)]"
  by (auto simp: syscall_def log_def split: option.splits sum.splits)

lemma remove_dirs_log:
  "remove_dirs dirs fd w = (fd', w') \<Longrightarrow>
   \<exists>evs. trace w' = trace w @ evs
     \<and> list_all (\<lambda>e. is_exists (fst e) \<or> is_dir_removal (fst e)) evs
     \<and> exists_queries evs = dirs \<and> subseq (rmdir_attempts evs) dirs"
proof (induction dirs arbitrary: fd w)
  case Nil
  then show ?case by simp
next
  case (Cons d dirs)
  let ?b = "lookup (fs w) d \<noteq> None"
  let ?w1 = "log (Exists d) ?b w"
  show ?case
  proof (cases ?b)
    case False
    with Cons.prems have "remove_dirs dirs fd ?w1 = (fd', w')"
      by (simp add: path_exists_eq)
    from Cons.IH [OF this] False show ?thesis
      by (auto simp: log_def)
  next
    case True
    obtain r2 w2 where rd: "syscall (Rmdir d) ?w1 = (r2, w2)" by (cases "syscall (Rmdir d) ?w1")
    note t2 = syscall_log [OF rd]
    show ?thesis
    proof (cases r2)
      case (Inr u)
      with Cons.prems True rd have "remove_dirs dirs fd w2 = (fd', w')"
        by (simp add: path_exists_eq)
      from Cons.IH [OF this] obtain evs where e: "trace w' = trace w2 @ evs"
        "list_all (\<lambda>e. is_exists (fst e) \<or> is_dir_removal (fst e)) evs"
        "exists_queries evs = dirs" "subseq (rmdir_attempts evs) dirs"
        by blast
      show ?thesis
        using e t2 True
        by (intro exI [of _ "(Exists d, True) # (Rmdir d, \<not> isl r2) # evs"]) (simp add: log_def)
    next
      case (Inl e2)
      obtain r3 w3 where rt: "syscall (Rmtree d) w2 = (r3, w3)" by (cases "syscall (Rmtree d) w2")
      note t3 = syscall_log [OF rt]
      from Cons.prems True rd Inl rt
      have "\<exists>fd1. remove_dirs dirs fd1 w3 = (fd', w')"
        by (auto simp: path_exists_eq split: sum.splits)
      then obtain fd1 where "remove_dirs dirs fd1 w3 = (fd', w')" ..
      from Cons.IH [OF this] obtain evs where e: "trace w' = trace w3 @ evs"
        "list_all (\<lambda>e. is_exists (fst e) \<or> is_dir_removal (fst e)) evs"
        "exists_queries evs = dirs" "subseq (rmdir_attempts evs) dirs"
        by blast
      show ?thesis
        using e t2 t3 True
        by (intro exI [of _ "(Exists d, True) # (Rmdir d, \<not> isl r2) # (Rmtree d, \<not> isl r3) # evs"])
           (simp add: log_def)
    qed
  qed
qed

lemma remove_root_log:
  "remove_root folder fd w = (fd', w') \<Longrightarrow>
   trace w' = trace w @ [(Rmdir folder, True)]
   \<or> (\<exists>ok. trace w' = trace w @ [(Rmdir folder, False), (Rmtree folder, ok)])"
  by (auto simp: remove_root_def split: prod.splits sum.splits dest!: syscall_log)

lemma fs_log [simp]: "fs (log c b w) = fs w"
  by (simp add: log_def)

lemma total_size_scan_ok:
  "\<exists>total w'. total_size_scan files w = (Inr total, w') \<and> fs w' = fs w
      \<and> faults w' = faults w \<and> drawn w' = drawn w \<and> entropy w' = entropy w \<and> win32 w' = win32 w
      \<and> issues is_query w w'"
proof (induction files arbitrary: w)
  case Nil
  show ?case by (simp add: issues_refl)
next
  case (Cons f files)
  let ?b = "lookup (fs w) f \<noteq> None"
  let ?w1 = "log (Exists f) ?b w"
  have a1: "issues is_query w ?w1" by (rule issues_log) (simp add: is_query_def)
  show ?case
  proof (cases ?b)
    case False
    from Cons.IH [of ?w1] obtain total w' where
      "total_size_scan files ?w1 = (Inr total, w')" "fs w' = fs ?w1" "faults w' = faults ?w1"
      "drawn w' = drawn ?w1" "entropy w' = entropy ?w1" "win32 w' = win32 ?w1" "issues is_query ?w1 w'"
      by blast
    with False a1 show ?thesis
      by (auto simp: path_exists_eq log_def intro: issues_trans)
  next
    case True
    then obtain n where n: "lookup (fs w) f = Some n" by auto
    define s where "s = (case n of File s \<Rightarrow> s | Dir es \<Rightarrow> 0)"
    let ?w2 = "log (GetSize f) True ?w1"
    have gs: "getsize f ?w1 = (Inr s, ?w2)"
      using n by (simp add: getsize_def s_def split: node.splits)
    have a2: "issues is_query w ?w2"
      by (rule issues_trans [OF a1]) (rule issues_log, simp add: is_query_def)
    from Cons.IH [of ?w2] obtain total w' where
      "total_size_scan files ?w2 = (Inr total, w')" "fs w' = fs ?w2" "faults w' = faults ?w2"
      "drawn w' = drawn ?w2" "entropy w' = entropy ?w2" "win32 w' = win32 ?w2" "issues is_query ?w2 w'"
      by blast
    with True gs a2 show ?thesis
      by (auto simp: path_exists_eq log_def intro: issues_trans)
  qed
qed

section \<open>The inventory: lemmas\<close>

lemma all_dirs_of_append [simp]: "all_dirs_of (xs @ ys) = all_dirs_of xs @ all_dirs_of ys"
  by (simp add: all_dirs_of_def)

lemma all_files_of_append [simp]: "all_files_of (xs @ ys) = all_files_of xs @ all_files_of ys"
  by (simp add: all_files_of_def)

lemma all_dirs_of_Nil [simp]: "all_dirs_of [] = []"
  by (simp add: all_dirs_of_def)

lemma all_files_of_Nil [simp]: "all_files_of [] = []"
  by (simp add: all_files_of_def)

lemma all_dirs_of_single [simp]:
  "all_dirs_of [(p, ds, fs')] = map (\<lambda>name. p @ [name]) ds"
  by (simp add: all_dirs_of_def)

lemma all_files_of_single [simp]:
  "all_files_of [(p, ds, fs')] = map (\<lambda>name. p @ [name]) fs'"
  by (simp add: all_files_of_def)

lemma length_names: "length (dirnames es) + length (filenames es) = length es"
  by (simp add: dirnames_def filenames_def sum_length_filter_compl)

lemma inventory_empty:
  "all_files_of (walk_node p (Dir [])) = [] \<and> all_dirs_of (walk_node p (Dir [])) = []"
  by (simp add: dirnames_def filenames_def)

lemma inventory_nonempty:
  assumes "es \<noteq> []"
  shows "\<not> (length (all_files_of (walk_node p (Dir es))) = 0
           \<and> length (all_dirs_of (walk_node p (Dir es))) = 0)"
proof
  assume "length (all_files_of (walk_node p (Dir es))) = 0
           \<and> length (all_dirs_of (walk_node p (Dir es))) = 0"
  then have "length (dirnames es) = 0" "length (filenames es) = 0" by simp_all
  with length_names [of es] assms show False by simp
qed




lemma secure_rename_passes_parent:
  "secure_rename_passes i parent cur w = (Inr np, w') \<Longrightarrow> np = cur \<or> butlast np = parent"
proof (induction i arbitrary: cur w)
  case 0
  then show ?case by simp
next
  case (Suc i)
  from Suc.prems show ?case
    by (auto simp: Let_def split: prod.splits sum.splits dest!: Suc.IH)
qed

lemma secure_rename_parent:
  "secure_rename p n w = (Some np, w') \<Longrightarrow> butlast np = butlast p"
  by (auto simp: secure_rename_def split: prod.splits sum.splits dest: secure_rename_passes_parent)

lemma secure_rename_issuesD:
  "secure_rename p n w = (r, w') \<Longrightarrow> issues (\<lambda>c. is_query c \<or> is_rename c) w w'"
  using issues_secure_rename [of w p n]
  by (auto elim!: issues_mono simp: is_query_def)

lemma rename_items_lists:
  "rename_items items rf rd w = ((rf', rd'), w') \<Longrightarrow>
   issues (\<lambda>c. is_query c \<or> is_rename c) w w'
   \<and> (\<exists>kf sf. rf' = rf @ kf \<and> subseq sf (items_of file_item items)
          \<and> list_all2 (\<lambda>a b. butlast b = butlast a) sf kf)
   \<and> (\<exists>kd sd. rd' = rd @ kd \<and> subseq sd (items_of dir_item items)
          \<and> list_all2 (\<lambda>a b. butlast b = butlast a) sd kd)"
proof (induction items arbitrary: rf rd w)
  case Nil
  then show ?case by (simp add: issues_refl items_of_def)
next
  case (Cons item items)
  let ?Q = "\<lambda>c. is_query c \<or> is_rename c"
  obtain p ty where item: "item = (p, ty)" by (cases item)
  let ?b = "lookup (fs w) p \<noteq> None"
  let ?w1 = "log (Exists p) ?b w"
  have a1: "issues ?Q w ?w1" by (rule issues_log) (simp add: is_query_def)
  show ?case
  proof (cases ?b)
    case False
    with Cons.prems item have "rename_items items rf rd ?w1 = ((rf', rd'), w')"
      by (simp add: path_exists_eq)
    from Cons.IH [OF this] obtain kf sf kd sd where
      ih: "issues ?Q ?w1 w'" "rf' = rf @ kf" "subseq sf (items_of file_item items)"
        "list_all2 (\<lambda>a b. butlast b = butlast a) sf kf"
        "rd' = rd @ kd" "subseq sd (items_of dir_item items)"
        "list_all2 (\<lambda>a b. butlast b = butlast a) sd kd"
      by blast
    have "subseq sf (items_of file_item (item # items))" "subseq sd (items_of dir_item (item # items))"
      using ih(3,6) by (auto simp: items_of_def intro: subseq_Cons')
    with ih issues_trans [OF a1 ih(1)] show ?thesis by blast
  next
    case True
    obtain r w2 where sr: "secure_rename p 3 ?w1 = (r, w2)" by (cases "secure_rename p 3 ?w1")
    define kept where "kept = (case r of Some np \<Rightarrow> np | None \<Rightarrow> p)"
    have kp: "butlast kept = butlast p"
      using sr by (auto simp: kept_def split: option.splits dest: secure_rename_parent)
    have a2: "issues ?Q w w2" using issues_trans [OF a1 secure_rename_issuesD [OF sr]] .
    show ?thesis
    proof (cases "ty = file_item")
      case is_file_item: True
      with Cons.prems item True sr
      have "rename_items items (rf @ [kept]) rd w2 = ((rf', rd'), w')"
        by (simp add: path_exists_eq kept_def)
      from Cons.IH [OF this] obtain kf sf kd sd where
        ih: "issues ?Q w2 w'" "rf' = (rf @ [kept]) @ kf" "subseq sf (items_of file_item items)"
          "list_all2 (\<lambda>a b. butlast b = butlast a) sf kf"
          "rd' = rd @ kd" "subseq sd (items_of dir_item items)"
          "list_all2 (\<lambda>a b. butlast b = butlast a) sd kd"
        by blast
      have f: "rf' = rf @ (kept # kf)" "subseq (p # sf) (items_of file_item (item # items))"
        "list_all2 (\<lambda>a b. butlast b = butlast a) (p # sf) (kept # kf)"
        using ih(2,3,4) kp is_file_item item by (simp_all add: items_of_def)
      have d: "subseq sd (items_of dir_item (item # items))"
        using ih(6) by (auto simp: items_of_def intro: subseq_Cons')
      from f d ih(5,7) issues_trans [OF a2 ih(1)] show ?thesis by blast
    next
      case is_dir_item: False
      then have ty: "ty = dir_item" by (cases ty) simp_all
      with Cons.prems item True sr
      have "rename_items items rf (rd @ [kept]) w2 = ((rf', rd'), w')"
        by (simp add: path_exists_eq kept_def)
      from Cons.IH [OF this] obtain kf sf kd sd where
        ih: "issues ?Q w2 w'" "rf' = rf @ kf" "subseq sf (items_of file_item items)"
          "list_all2 (\<lambda>a b. butlast b = butlast a) sf kf"
          "rd' = (rd @ [kept]) @ kd" "subseq sd (items_of dir_item items)"
          "list_all2 (\<lambda>a b. butlast b = butlast a) sd kd"
        by blast
      have d: "rd' = rd @ (kept # kd)" "subseq (p # sd) (items_of dir_item (item # items))"
        "list_all2 (\<lambda>a b. butlast b = butlast a) (p # sd) (kept # kd)"
        using ih(5,6,7) kp ty item by (simp_all add: items_of_def)
      have f: "subseq sf (items_of file_item (item # items))"
        using ih(3) by (auto simp: items_of_def intro: subseq_Cons')
      from f d ih(2,4) issues_trans [OF a2 ih(1)] show ?thesis by blast
    qed
  qed
qed


section \<open>The deletion engine: the theorems\<close>

lemma os_walk_dir: "lookup t folder = Some (Dir es) \<Longrightarrow> os_walk t folder = walk_node folder (Dir es)"
  by (simp add: os_walk_def)

lemma engine_phases:
  assumes dir: "lookup (fs w) folder = Some (Dir es)" and ne: "es \<noteq> []"
  shows "\<exists>scanned w3 files dirs w4 c w5 fd w6 fd' w7.
      total_size_scan (all_files_of (walk_node folder (Dir es)))
        (log (IsDir folder) True (log (Exists folder) True w)) = (Inr scanned, w3)
    \<and> issues is_query (log (IsDir folder) True (log (Exists folder) True w)) w3
    \<and> (if rn then rename_items (map (\<lambda>f. (f, file_item)) (all_files_of (walk_node folder (Dir es)))
                                @ map (\<lambda>d. (d, dir_item)) (all_dirs_of (walk_node folder (Dir es)))) [] [] w3
         else ((all_files_of (walk_node folder (Dir es)), all_dirs_of (walk_node folder (Dir es))), w3))
        = ((files, dirs), w4)
    \<and> delete_files files k 0 w4 = (c, w5)
    \<and> remove_dirs dirs [] w5 = (fd, w6)
    \<and> remove_root folder fd w6 = (fd', w7)
    \<and> secure_delete_folder folder k rn w
        = (Inr (Some (butlast folder),
                Some \<lparr>total_files = length (all_files_of (walk_node folder (Dir es))),
                      success_count = c, failed_deletes = fd', total_size = scanned\<rparr>), w7)"
proof -
  let ?w2 = "log (IsDir folder) True (log (Exists folder) True w)"
  let ?af = "all_files_of (walk_node folder (Dir es))"
  let ?ad = "all_dirs_of (walk_node folder (Dir es))"
  have ex: "path_exists folder w = (True, log (Exists folder) True w)"
    using dir by (simp add: path_exists_eq)
  have isd: "is_dir folder (log (Exists folder) True w) = (True, ?w2)"
    using dir by (simp add: is_dir_def)
  have walk: "os_walk (fs ?w2) folder = walk_node folder (Dir es)"
    using dir by (simp add: os_walk_dir)
  from total_size_scan_ok [of ?af ?w2] obtain scanned w3 where
    scan: "total_size_scan ?af ?w2 = (Inr scanned, w3)" "issues is_query ?w2 w3"
    by blast
  obtain files dirs w4 where
    rn: "(if rn then rename_items (map (\<lambda>f. (f, file_item)) ?af
                                @ map (\<lambda>d. (d, dir_item)) ?ad) [] [] w3
         else ((?af, ?ad), w3)) = ((files, dirs), w4)"
    by (metis surj_pair)
  obtain c w5 where del: "delete_files files k 0 w4 = (c, w5)" by (cases "delete_files files k 0 w4")
  obtain fd w6 where rd: "remove_dirs dirs [] w5 = (fd, w6)" by (cases "remove_dirs dirs [] w5")
  obtain fd' w7 where rr: "remove_root folder fd w6 = (fd', w7)" by (cases "remove_root folder fd w6")
  have nz: "\<not> (length ?af = 0 \<and> length ?ad = 0)"
    by (rule inventory_nonempty [OF ne])
  have "secure_delete_folder folder k rn w
        = (Inr (Some (butlast folder),
                Some \<lparr>total_files = length ?af, success_count = c,
                      failed_deletes = fd', total_size = scanned\<rparr>), w7)"
    using nz scan(1) rn del rd rr
    by (cases rn)
       (simp_all add: secure_delete_folder_def ex isd walk Let_def
          del: length_0_conv walk_node.simps fs_log)
  with scan rn del rd rr show ?thesis by blast
qed





text \<open>
  Claim C4, as the code has it. For every target path that exists and is a directory, the
  engine returns the root's parent directory, whatever the teardown achieved. When the
  target holds at least one entry, the last calls of the run are the expect-empty removal
  of the root (\<open>os.rmdir\<close>) and, when that fails, the forced removal (\<open>shutil.rmtree\<close>). When
  the target is empty the engine returns at once, after its two queries: no report, and no
  removal of the root is attempted.
\<close>

theorem root_removal_attempted_unless_empty:
  assumes "lookup (fs w) folder = Some (Dir es)"
  shows "\<exists>rep w'. secure_delete_folder folder k rn w = (Inr (Some (butlast folder), rep), w')
      \<and> (es = [] \<longrightarrow> rep = None
            \<and> trace w' = trace w @ [(Exists folder, True), (IsDir folder, True)])
      \<and> (es \<noteq> [] \<longrightarrow> rep \<noteq> None
            \<and> (\<exists>pre. trace w' = trace w @ pre @ [(Rmdir folder, True)]
                  \<or> (\<exists>ok. trace w' = trace w @ pre @ [(Rmdir folder, False), (Rmtree folder, ok)])))"
proof (cases "es = []")
  case True
  have "path_exists folder w = (True, log (Exists folder) True w)"
    using assms by (simp add: path_exists_eq)
  moreover have "is_dir folder (log (Exists folder) True w)
       = (True, log (IsDir folder) True (log (Exists folder) True w))"
    using assms by (simp add: is_dir_def)
  moreover have "os_walk (fs (log (IsDir folder) True (log (Exists folder) True w))) folder
       = walk_node folder (Dir [])"
    using assms True by (simp add: os_walk_dir)
  ultimately have "secure_delete_folder folder k rn w
      = (Inr (Some (butlast folder), None), log (IsDir folder) True (log (Exists folder) True w))"
    using inventory_empty [of folder]
    by (simp add: secure_delete_folder_def Let_def del: walk_node.simps fs_log)
  with True show ?thesis by (simp add: log_def)
next
  case False
  from engine_phases [OF assms False, of rn k] obtain scanned w3 files dirs w4 c w5 fd w6 fd' w7
    where ph: "issues is_query (log (IsDir folder) True (log (Exists folder) True w)) w3"
      "(if rn then rename_items (map (\<lambda>f. (f, file_item)) (all_files_of (walk_node folder (Dir es)))
                                @ map (\<lambda>d. (d, dir_item)) (all_dirs_of (walk_node folder (Dir es)))) [] [] w3
         else ((all_files_of (walk_node folder (Dir es)), all_dirs_of (walk_node folder (Dir es))), w3))
        = ((files, dirs), w4)"
      "delete_files files k 0 w4 = (c, w5)"
      "remove_dirs dirs [] w5 = (fd, w6)"
      "remove_root folder fd w6 = (fd', w7)"
      "secure_delete_folder folder k rn w
        = (Inr (Some (butlast folder),
                Some \<lparr>total_files = length (all_files_of (walk_node folder (Dir es))),
                      success_count = c, failed_deletes = fd', total_size = scanned\<rparr>), w7)"
    by blast
  have p1: "\<exists>evs. trace w3 = trace w @ evs"
    using ph(1) by (auto simp: issues_def log_def)
  have p2: "\<exists>evs. trace w4 = trace w3 @ evs"
  proof (cases rn)
    case True
    with ph(2) rename_items_lists show ?thesis by (fastforce simp: issues_def)
  next
    case False
    with ph(2) show ?thesis by simp
  qed
  have p3: "\<exists>evs. trace w5 = trace w4 @ evs"
    using delete_files_log [OF ph(3)] by blast
  have p4: "\<exists>evs. trace w6 = trace w5 @ evs"
    using remove_dirs_log [OF ph(4)] by blast
  from p1 p2 p3 p4 obtain pre where pre: "trace w6 = trace w @ pre" by auto
  from remove_root_log [OF ph(5)] pre
  have "trace w7 = trace w @ pre @ [(Rmdir folder, True)]
        \<or> (\<exists>ok. trace w7 = trace w @ pre @ [(Rmdir folder, False), (Rmtree folder, ok)])"
    by auto
  with ph(6) False show ?thesis by auto
qed

theorem root_removal_attempted_unless_empty_witness:
  "(\<exists>rep w'. secure_delete_folder [''target''] 3 True scenario = (Inr (Some [], Some rep), w')
       \<and> (\<exists>pre. trace w' = trace scenario @ pre @ [(Rmdir [''target''], True)]
              \<or> (\<exists>ok. trace w' = trace scenario @ pre
                           @ [(Rmdir [''target''], False), (Rmtree [''target''], ok)])))
   \<and> (\<exists>w'. secure_delete_folder [''site''] 3 True empty_site = (Inr (Some [], None), w')
       \<and> trace w' = trace empty_site @ [(Exists [''site''], True), (IsDir [''site''], True)])"
proof -
  have a: "lookup (fs scenario) [''target'']
           = Some (Dir [(''a'', File 0), (''b'', File 1024), (''c'', File 5000000)])"
    by (simp add: scenario_def)
  have b: "lookup (fs empty_site) [''site''] = Some (Dir [])"
    by (simp add: empty_site_def)
  from root_removal_attempted_unless_empty [OF a, of 3 True]
       root_removal_attempted_unless_empty [OF b, of 3 True]
  show ?thesis by auto
qed

text \<open>On an empty target directory nothing is attempted on the root, which stays.\<close>

theorem empty_target_root_not_removed_counterexample:
  "fst (secure_delete_folder [''site''] 3 True empty_site) = Inr (Some [], None)
   \<and> rmdir_attempts (trace (snd (secure_delete_folder [''site''] 3 True empty_site))) = []
   \<and> lookup (fs (snd (secure_delete_folder [''site''] 3 True empty_site))) [''site'']
       = Some (Dir [])"
  by (simp add: secure_delete_folder_def path_exists_def is_dir_def os_walk_def empty_site_def
      log_def dirnames_def filenames_def Let_def)







section \<open>The journal flood: a run\<close>

lemma hex_a: "hexlify [3, 10, 17, 24, 31, 38, 45, 52] = ''030a11181f262d34''"
  by code_simp
lemma hex_b: "hexlify [59, 66, 73, 80, 87, 94, 101, 108, 115, 122, 129, 136, 143, 150, 157, 164,
  171, 178, 185, 192, 199, 206, 213, 220] = ''3b424950575e656c737a81888f969da4abb2b9c0c7ced5dc''"
  by code_simp
lemma hex_c: "hexlify [227, 234, 241, 248, 255, 6, 13, 20, 27, 34, 41, 48, 55, 62, 69, 76, 83,
  90, 97, 104, 111, 118, 125, 132] = ''e3eaf1f8ff060d141b222930373e454c535a61686f767d84''"
  by code_simp
lemma hex_d: "hexlify [139, 146, 153, 160, 167, 174, 181, 188, 195, 202, 209, 216, 223, 230, 237,
  244, 251, 2, 9, 16, 23, 30, 37, 44] = ''8b9299a0a7aeb5bcc3cad1d8dfe6edf4fb020910171e252c''"
  by code_simp
lemma hex_e: "hexlify [51, 58, 65, 72, 79, 86, 93, 100, 107, 114, 121, 128, 135, 142, 149, 156,
  163, 170, 177, 184, 191, 198, 205, 212] = ''333a41484f565d646b727980878e959ca3aab1b8bfc6cdd4''"
  by code_simp

lemma name_a: "entropy w = sample_entropy \<Longrightarrow> drawn w = 0 \<Longrightarrow> hexlify (random_bytes 8 w) = ''030a11181f262d34''"
  by (simp add: random_bytes_def sample_entropy_def upt_rec hex_a)
lemma name_b: "entropy w = sample_entropy \<Longrightarrow> drawn w = 8 \<Longrightarrow> hexlify (random_bytes 24 w) = ''3b424950575e656c737a81888f969da4abb2b9c0c7ced5dc''"
  by (simp add: random_bytes_def sample_entropy_def upt_rec hex_b)
lemma name_c: "entropy w = sample_entropy \<Longrightarrow> drawn w = 1056 \<Longrightarrow> hexlify (random_bytes 24 w) = ''e3eaf1f8ff060d141b222930373e454c535a61686f767d84''"
  by (simp add: random_bytes_def sample_entropy_def upt_rec hex_c)
lemma name_d: "entropy w = sample_entropy \<Longrightarrow> drawn w = 1080 \<Longrightarrow> hexlify (random_bytes 24 w) = ''8b9299a0a7aeb5bcc3cad1d8dfe6edf4fb020910171e252c''"
  by (simp add: random_bytes_def sample_entropy_def upt_rec hex_d)
lemma name_e: "entropy w = sample_entropy \<Longrightarrow> drawn w = 1104 \<Longrightarrow> hexlify (random_bytes 24 w) = ''333a41484f565d646b727980878e959ca3aab1b8bfc6cdd4''"
  by (simp add: random_bytes_def sample_entropy_def upt_rec hex_e)

lemmas run_simps = token_hex_def consume_entropy_def syscall_def next_fault_def log_def
  path_exists_def is_file_def secure_rename_def generate_random_name_def fs_rename_def
  set_entry_def Let_def numeral_3_eq_3

lemma flood_step1:
  "token_hex 8 empty_site = (Inr ''030a11181f262d34'', empty_site\<lparr>drawn := 8\<rparr>)"
  by (simp add: run_simps name_a empty_site_def)

lemma flood_step2:
  "syscall (Mkdir [''site'', ''_journal_flood_030a11181f262d34'']) (empty_site\<lparr>drawn := 8\<rparr>) = (Inr (), flood_made)"
  by (simp add: run_simps empty_site_def flood_made_def)

lemma flood_step3:
  "create_dummy_files (Suc 0) [''site'', ''_journal_flood_030a11181f262d34''] [] flood_made
   = (Inr [[''site'', ''_journal_flood_030a11181f262d34'', ''3b424950575e656c737a81888f969da4abb2b9c0c7ced5dc.tmp'']], flood_created)"
  by (simp add: run_simps name_b flood_made_def flood_created_def)


lemma flood_step4:
  "rename_created [[''site'', ''_journal_flood_030a11181f262d34'', ''3b424950575e656c737a81888f969da4abb2b9c0c7ced5dc.tmp'']] flood_created = flood_renamed"
  by (simp add: run_simps name_c name_d name_e flood_created_def flood_renamed_def)


lemma flood_step5:
  "delete_created [[''site'', ''_journal_flood_030a11181f262d34'', ''3b424950575e656c737a81888f969da4abb2b9c0c7ced5dc.tmp'']] flood_renamed
   = flood_renamed\<lparr>trace := trace flood_renamed @
    [(Exists [''site'', ''_journal_flood_030a11181f262d34'', ''3b424950575e656c737a81888f969da4abb2b9c0c7ced5dc.tmp''], False)]\<rparr>"
  by (simp add: run_simps flood_renamed_def)

lemma flood_step6:
  "snd (syscall (Rmdir [''site'', ''_journal_flood_030a11181f262d34''])
     (flood_renamed\<lparr>trace := trace flood_renamed @
    [(Exists [''site'', ''_journal_flood_030a11181f262d34'', ''3b424950575e656c737a81888f969da4abb2b9c0c7ced5dc.tmp''], False)]\<rparr>)) = flood_done"
  by (simp add: run_simps flood_renamed_def flood_done_def)

lemma flood_body:
  "flood_journal_body [''site'', ''_journal_flood_030a11181f262d34''] 1 1 (empty_site\<lparr>drawn := 8\<rparr>) = (Inr (), flood_done)"
  by (simp add: flood_journal_body_def flood_step2 flood_step3 flood_step4 flood_step5 flood_step6 Let_def
      del: create_dummy_files.simps rename_created.simps delete_created.simps)

text \<open>
  Claim C1 fails on the code. A journal flood of one file in an empty directory, with
  nothing refused and a positive elapsed time: the dummy file is written and renamed three
  times, phase 3 asks only for the path the file was created under, which no longer
  exists, and attempts no deletion; the temporary directory is not empty, so its \<open>rmdir\<close>
  fails. At the end the file is still on disk under its last random name, inside the
  temporary directory.
\<close>

theorem journal_flood_leaves_its_files:
  "flood_journal [''site''] (Some 1) (Inr []) journal_query_64MiB 1 empty_site = (Inr (), flood_done)
   \<and> files_written (trace flood_done)
       = [[''site'', ''_journal_flood_030a11181f262d34'', ''3b424950575e656c737a81888f969da4abb2b9c0c7ced5dc.tmp'']]
   \<and> unlink_attempts (trace flood_done) = []
   \<and> fs flood_done = Dir [(''site'', Dir [(''_journal_flood_030a11181f262d34'',
              Dir [(''333a41484f565d646b727980878e959ca3aab1b8bfc6cdd4.tmp'', File 1024)])])]"
proof -
  have "flood_journal [''site''] (Some 1) (Inr []) journal_query_64MiB 1 empty_site = (Inr (), flood_done)"
    by (simp add: flood_journal_def flood_journal_num_files_def flood_step1 flood_body)
  moreover have "files_written (trace flood_done)
       = [[''site'', ''_journal_flood_030a11181f262d34'', ''3b424950575e656c737a81888f969da4abb2b9c0c7ced5dc.tmp'']]"
    by (simp add: flood_done_def flood_renamed_def)
  moreover have "unlink_attempts (trace flood_done) = []"
    by (simp add: flood_done_def flood_renamed_def)
  moreover have "fs flood_done = Dir [(''site'', Dir [(''_journal_flood_030a11181f262d34'',
              Dir [(''333a41484f565d646b727980878e959ca3aab1b8bfc6cdd4.tmp'', File 1024)])])]"
    by (simp add: flood_done_def flood_renamed_def)
  ultimately show ?thesis by blast
qed

end
